theory Spec2Isabelle
  imports Main
begin

section \<open>JavaScript values, objects and strings\<close>

text \<open>
  The values that occur in patient records. Numbers are the finite integer-valued
  Numbers (ids, ages): \<open>JNum n\<close> stands for the Number whose value is the integer
  \<open>n\<close>. Every integer of magnitude up to \<open>2 ^ 53\<close> is such a Number, which covers
  every key the store's key generator can produce; beyond that a Number holds only the
  integers that \<open>to_double\<close> below leaves as they are. \<^verbatim>\<open>NaN\<close> and the infinities
  are not values of this type; they occur as results of \<^verbatim>\<open>parseInt\<close> only.
\<close>

datatype jsval = JUndefined | JNull | JNum int | JStr string | JBlob string

text \<open>
  A plain object is a map from property names to values. Reading a property that is
  absent gives \<^verbatim>\<open>undefined\<close>; the object spread \<^verbatim>\<open>{...a, ...b}\<close> is \<open>a ++ b\<close> and
  \<^verbatim>\<open>{...a, k: v}\<close> is \<open>a(k \<mapsto> v)\<close>.
\<close>

type_synonym obj = "string \<rightharpoonup> jsval"

definition get_prop :: "obj \<Rightarrow> string \<Rightarrow> jsval" where
  "get_prop ob k = (case ob k of None \<Rightarrow> JUndefined | Some v \<Rightarrow> v)"

text \<open>
  Strings are sequences of code units below 256 (the Latin-1 range). On that range
  \<^verbatim>\<open>String.prototype.toLowerCase\<close> maps \<open>A\<close>-\<open>Z\<close> and the accented capitals
  \<open>U+00C0\<close>-\<open>U+00DE\<close> (without the multiplication sign \<open>U+00D7\<close>) to the letter 32
  code units higher, which is the same code unit with bit 5 set; white space
  (\<^verbatim>\<open>trim\<close>, and the prefix \<^verbatim>\<open>parseInt\<close> skips) is TAB, LF, VT, FF, CR, SP and NBSP.
\<close>

definition is_upper :: "char \<Rightarrow> bool" where
  "is_upper c =
     (let n = (of_char c :: nat)
      in (65 \<le> n \<and> n \<le> 90) \<or> (192 \<le> n \<and> n \<le> 222 \<and> n \<noteq> 215))"

definition lower_char :: "char \<Rightarrow> char" where
  "lower_char c =
     (if is_upper c
      then (case c of Char b0 b1 b2 b3 b4 b5 b6 b7 \<Rightarrow> Char b0 b1 b2 b3 b4 True b6 b7)
      else c)"

definition toLowerCase :: "string \<Rightarrow> string" where
  "toLowerCase s = map lower_char s"

definition is_ws :: "char \<Rightarrow> bool" where
  "is_ws c = ((of_char c :: nat) \<in> set [9, 10, 11, 12, 13, 32, 160])"

definition trim :: "string \<Rightarrow> string" where
  "trim s = rev (dropWhile is_ws (rev (dropWhile is_ws s)))"

text \<open>\<^verbatim>\<open>hay.includes(needle)\<close>: the needle occurs in the hay as a contiguous run.\<close>

definition starts_with :: "string \<Rightarrow> string \<Rightarrow> bool" where
  "starts_with hay needle = (take (length needle) hay = needle)"

fun includes_str :: "string \<Rightarrow> string \<Rightarrow> bool" where
  "includes_str [] needle = (needle = [])"
| "includes_str (c # cs) needle = (starts_with (c # cs) needle \<or> includes_str cs needle)"

text \<open>
  The Number value of a natural number: the nearest double, ties to the even
  significand (53 bits). \<open>shift_count n\<close> is the number of low bits that do not fit;
  from \<open>2 ^ 1024 - 2 ^ 970\<close> on the rounded value reaches \<open>2 ^ 1024\<close>, which is
  \<^verbatim>\<open>Infinity\<close> (\<open>None\<close>).
\<close>

function shift_count :: "nat \<Rightarrow> nat" where
  "shift_count n = (if n < 2 ^ 53 then 0 else Suc (shift_count (n div 2)))"
  by pat_completeness auto
termination
  by (relation "measure (\<lambda>n. n)") auto

declare shift_count.simps [simp del]

definition to_double :: "nat \<Rightarrow> nat option" where
  "to_double n =
     (let e = shift_count n;
          q = n div 2 ^ e;
          r = n mod 2 ^ e;
          q' = (if 2 * r > 2 ^ e \<or> (2 * r = 2 ^ e \<and> odd q) then q + 1 else q)
      in if q' * 2 ^ e \<ge> 2 ^ 1024 then None else Some (q' * 2 ^ e))"

text \<open>
  \<^verbatim>\<open>parseInt(s)\<close> with no radix: skip leading white space, take an optional sign, take
  the prefix \<^verbatim>\<open>0x\<close>/\<^verbatim>\<open>0X\<close> as the switch to radix 16, then read the longest run
  of digits of the radix. No digit at all gives \<^verbatim>\<open>NaN\<close>; whatever follows the digits
  is ignored. The result is the Number value of the integer the digits denote: the
  integer itself up to \<open>2 ^ 53\<close>, the nearest double beyond, an infinity (\<open>Infinite\<close>,
  of either sign) when that overflows. (Past 20 significant decimal digits the language
  lets an implementation zero the later digits before rounding; the model rounds the
  exact value.)
\<close>

datatype parsed = NaN | Num int | Infinite

definition digit_val :: "nat \<Rightarrow> char \<Rightarrow> nat option" where
  "digit_val R c =
     (let n = (of_char c :: nat);
          d = (if 48 \<le> n \<and> n \<le> 57 then Some (n - 48)
               else if 97 \<le> n \<and> n \<le> 122 then Some (n - 87)
               else if 65 \<le> n \<and> n \<le> 90 then Some (n - 55)
               else None)
      in case d of None \<Rightarrow> None | Some v \<Rightarrow> if v < R then Some v else None)"

fun digits_prefix :: "nat \<Rightarrow> string \<Rightarrow> nat list" where
  "digits_prefix R [] = []"
| "digits_prefix R (c # cs) =
     (case digit_val R c of None \<Rightarrow> [] | Some d \<Rightarrow> d # digits_prefix R cs)"

definition math_int :: "nat \<Rightarrow> nat list \<Rightarrow> nat" where
  "math_int R ds = foldl (\<lambda>a d. a * R + d) 0 ds"

definition has_hex_prefix :: "string \<Rightarrow> bool" where
  "has_hex_prefix s =
     (case s of a # b # _ \<Rightarrow> a = CHR ''0'' \<and> (b = CHR ''x'' \<or> b = CHR ''X'') | _ \<Rightarrow> False)"

definition parseInt :: "string \<Rightarrow> parsed" where
  "parseInt s =
     (let S = dropWhile is_ws s;
          sign = (if S \<noteq> [] \<and> hd S = CHR ''-'' then - 1 else 1 :: int);
          S1 = (if S \<noteq> [] \<and> (hd S = CHR ''+'' \<or> hd S = CHR ''-'') then tl S else S);
          R = (if has_hex_prefix S1 then 16 else 10);
          S2 = (if has_hex_prefix S1 then drop 2 S1 else S1);
          Z = digits_prefix R S2
      in if Z = [] then NaN
         else (case to_double (math_int R Z) of
                 None \<Rightarrow> Infinite
               | Some m \<Rightarrow> Num (sign * int m)))"

section \<open>The IndexedDB object store\<close>

text \<open>
  \<^verbatim>\<open>init\<close> creates the object store \<^verbatim>\<open>patients\<close> with
  \<^verbatim>\<open>{ keyPath: "id", autoIncrement: true }\<close>. The engine is the browser's; it is
  modelled after the Indexed Database API: records are kept in ascending key order, a
  record's key is its own \<^verbatim>\<open>id\<close> property (in-line keys), and the store has a key
  generator whose current number starts at 1. Failures of the environment (quota,
  input/output) are outside the model.
\<close>

datatype error =
    TypeError        \<comment> \<open>reading \<^verbatim>\<open>transaction\<close> of \<^verbatim>\<open>null\<close>, or a method of a non-string\<close>
  | DataError        \<comment> \<open>the engine: the supplied key is not a valid key\<close>
  | ConstraintError  \<comment> \<open>the engine: \<^verbatim>\<open>add\<close> on a key that exists, or the generator is exhausted\<close>
  | PatientNotFound  \<comment> \<open>\<^verbatim>\<open>new Error("Patient not found")\<close>\<close>
  | NotInitialized   \<comment> \<open>the kind the specification names; no path of the source raises it\<close>

record object_store =
  records :: "obj list"
  current_number :: int

definition key_of :: "obj \<Rightarrow> jsval" where
  "key_of r = get_prop r ''id''"

fun valid_key :: "jsval \<Rightarrow> bool" where
  "valid_key (JNum n) = True"
| "valid_key (JStr s) = True"
| "valid_key v = False"

fun str_less :: "string \<Rightarrow> string \<Rightarrow> bool" where
  "str_less [] [] = False"
| "str_less [] (d # ds) = True"
| "str_less (c # cs) [] = False"
| "str_less (c # cs) (d # ds) =
     ((of_char c :: nat) < of_char d \<or> (c = d \<and> str_less cs ds))"

text \<open>Key order: every number is below every string.\<close>

fun key_less :: "jsval \<Rightarrow> jsval \<Rightarrow> bool" where
  "key_less (JNum a) (JNum b) = (a < b)"
| "key_less (JNum a) (JStr t) = True"
| "key_less (JStr s) (JStr t) = str_less s t"
| "key_less v w = False"

definition store_get :: "obj list \<Rightarrow> jsval \<Rightarrow> obj option" where
  "store_get rs k = find (\<lambda>r. key_of r = k) rs"

fun insert_sorted :: "obj \<Rightarrow> obj list \<Rightarrow> obj list" where
  "insert_sorted r [] = [r]"
| "insert_sorted r (x # xs) =
     (if key_less (key_of r) (key_of x) then r # x # xs else x # insert_sorted r xs)"

definition store_record :: "obj \<Rightarrow> obj list \<Rightarrow> obj list" where
  "store_record r rs = insert_sorted r (filter (\<lambda>x. key_of x \<noteq> key_of r) rs)"

definition store_delete :: "jsval \<Rightarrow> obj list \<Rightarrow> obj list" where
  "store_delete k rs = filter (\<lambda>x. key_of x \<noteq> k) rs"

text \<open>
  The result of handing a value to \<^verbatim>\<open>add\<close> or \<^verbatim>\<open>put\<close>: the request succeeds with
  the record's key, the request fails (its \<^verbatim>\<open>onerror\<close> fires and the transaction
  aborts), or the call itself throws.
\<close>

datatype request = Success jsval object_store | Failure error | Throws error

definition generate_key :: "object_store \<Rightarrow> (int \<times> object_store) option" where
  "generate_key st =
     (if current_number st > 2 ^ 53 then None
      else Some (current_number st, st\<lparr>current_number := current_number st + 1\<rparr>))"

definition possibly_update_generator :: "object_store \<Rightarrow> jsval \<Rightarrow> object_store" where
  "possibly_update_generator st k =
     (case k of
        JNum n \<Rightarrow>
          (let v = min n (2 ^ 53)
           in if v \<ge> current_number st then st\<lparr>current_number := v + 1\<rparr> else st)
      | _ \<Rightarrow> st)"

text \<open>
  Storing a value, for \<^verbatim>\<open>add\<close> (\<open>no_overwrite\<close>) and \<^verbatim>\<open>put\<close>. A value whose
  \<^verbatim>\<open>id\<close> is absent or \<^verbatim>\<open>undefined\<close> gets the generator's next key, written into the
  stored copy; any other \<^verbatim>\<open>id\<close> is the key as it stands, and must be a valid key.
\<close>

definition idb_store :: "bool \<Rightarrow> object_store \<Rightarrow> obj \<Rightarrow> request" where
  "idb_store no_overwrite st v =
     (if key_of v = JUndefined then
        (case generate_key st of
           None \<Rightarrow> Failure ConstraintError
         | Some (n, st') \<Rightarrow>
             if no_overwrite \<and> store_get (records st) (JNum n) \<noteq> None
             then Failure ConstraintError
             else Success (JNum n)
                    (st'\<lparr>records := store_record (v(''id'' \<mapsto> JNum n)) (records st')\<rparr>))
      else if \<not> valid_key (key_of v) then Throws DataError
      else if no_overwrite \<and> store_get (records st) (key_of v) \<noteq> None
        then Failure ConstraintError
      else Success (key_of v)
             ((possibly_update_generator st (key_of v))
                \<lparr>records := store_record v (records st)\<rparr>))"

section \<open>PatientDatabase\<close>

text \<open>
  The handle: \<^verbatim>\<open>this.db\<close> is \<^verbatim>\<open>null\<close> until \<^verbatim>\<open>init\<close> has resolved. The database on
  disk outlives the handle, so the unopened handle carries what a later \<^verbatim>\<open>init\<close>
  will find (\<open>None\<close>: the database has never been created).
\<close>

datatype patient_database = Unopened "object_store option" | Ready object_store

text \<open>
  A promise settles or stays pending for ever: an exception thrown inside an
  \<^verbatim>\<open>onsuccess\<close> handler reaches neither \<^verbatim>\<open>resolve\<close> nor \<^verbatim>\<open>reject\<close>.
\<close>

datatype 'a promise = Resolved 'a | Rejected error | Pending

definition init :: "patient_database \<Rightarrow> unit promise \<times> patient_database" where
  "init h =
     (case h of
        Unopened None \<Rightarrow> (Resolved (), Ready \<lparr>records = [], current_number = 1\<rparr>)
      | Unopened (Some st) \<Rightarrow> (Resolved (), Ready st)
      | Ready st \<Rightarrow> (Resolved (), Ready st))"

definition addPatient ::
  "string \<Rightarrow> obj \<Rightarrow> patient_database \<Rightarrow> jsval promise \<times> patient_database" where
  "addPatient now patientData h =
     (case h of
        Unopened d \<Rightarrow> (Rejected TypeError, h)
      | Ready st \<Rightarrow>
          (let patient = (Map.empty ++ patientData)(''createdAt'' \<mapsto> JStr now)
           in case idb_store True st patient of
                Success k st' \<Rightarrow> (Resolved k, Ready st')
              | Failure e \<Rightarrow> (Rejected e, h)
              | Throws e \<Rightarrow> (Rejected e, h)))"

definition getAllPatients :: "patient_database \<Rightarrow> obj list promise" where
  "getAllPatients h =
     (case h of
        Unopened d \<Rightarrow> Rejected TypeError
      | Ready st \<Rightarrow> Resolved (records st))"

definition getPatientById :: "jsval \<Rightarrow> patient_database \<Rightarrow> obj option promise" where
  "getPatientById ident h =
     (case h of
        Unopened d \<Rightarrow> Rejected TypeError
      | Ready st \<Rightarrow>
          if \<not> valid_key ident then Rejected DataError
          else Resolved (store_get (records st) ident))"

text \<open>
  The filter callback of \<^verbatim>\<open>searchPatients\<close>: \<open>None\<close> is the TypeError of
  \<^verbatim>\<open>p.name.toLowerCase()\<close> on a record whose \<^verbatim>\<open>name\<close> is not a string. The first
  test is \<^verbatim>\<open>!isNaN(searchId) && p.id === searchId\<close>; an infinite \<^verbatim>\<open>searchId\<close> passes
  \<^verbatim>\<open>isNaN\<close> but is strictly equal to no finite id.
\<close>

definition patient_matches :: "parsed \<Rightarrow> string \<Rightarrow> obj \<Rightarrow> bool option" where
  "patient_matches searchId lowerSearchTerm p =
     (if (case searchId of Num n \<Rightarrow> get_prop p ''id'' = JNum n | _ \<Rightarrow> False)
      then Some True
      else (case get_prop p ''name'' of
              JStr name \<Rightarrow> Some (includes_str (toLowerCase name) lowerSearchTerm)
            | _ \<Rightarrow> None))"

fun filter_throwing :: "('a \<Rightarrow> bool option) \<Rightarrow> 'a list \<Rightarrow> 'a list option" where
  "filter_throwing f [] = Some []"
| "filter_throwing f (x # xs) =
     (case f x of
        None \<Rightarrow> None
      | Some b \<Rightarrow>
          (case filter_throwing f xs of
             None \<Rightarrow> None
           | Some ys \<Rightarrow> Some (if b then x # ys else ys)))"

definition searchPatients :: "string \<Rightarrow> patient_database \<Rightarrow> obj list promise" where
  "searchPatients searchTerm h =
     (case h of
        Unopened d \<Rightarrow> Rejected TypeError
      | Ready st \<Rightarrow>
          (let patients = records st;
               lowerSearchTerm = trim (toLowerCase searchTerm);
               searchId = parseInt searchTerm
           in case filter_throwing (patient_matches searchId lowerSearchTerm) patients of
                None \<Rightarrow> Pending
              | Some filtered \<Rightarrow> Resolved filtered))"

definition updatePatient ::
  "jsval \<Rightarrow> obj \<Rightarrow> patient_database \<Rightarrow> obj promise \<times> patient_database" where
  "updatePatient ident updates h =
     (case h of
        Unopened d \<Rightarrow> (Rejected TypeError, h)
      | Ready st \<Rightarrow>
          if \<not> valid_key ident then (Rejected DataError, h)
          else (case store_get (records st) ident of
                  None \<Rightarrow> (Rejected PatientNotFound, h)
                | Some patient \<Rightarrow>
                    (let updatedPatient = (Map.empty ++ patient) ++ updates
                     in case idb_store False st updatedPatient of
                          Success k st' \<Rightarrow> (Resolved updatedPatient, Ready st')
                        | Failure e \<Rightarrow> (Rejected e, h)
                        | Throws e \<Rightarrow> (Pending, h))))"

definition deletePatient ::
  "jsval \<Rightarrow> patient_database \<Rightarrow> unit promise \<times> patient_database" where
  "deletePatient ident h =
     (case h of
        Unopened d \<Rightarrow> (Rejected TypeError, h)
      | Ready st \<Rightarrow>
          if \<not> valid_key ident then (Rejected DataError, h)
          else (Resolved (), Ready (st\<lparr>records := store_delete ident (records st)\<rparr>)))"

section \<open>Predicates on stores, sequences of operations\<close>

text \<open>
  The data model gives every patient record a textual \<^verbatim>\<open>name\<close>; the store itself
  does not check it, so the properties of \<^verbatim>\<open>searchPatients\<close> state it.
\<close>

definition name_is_text :: "obj \<Rightarrow> bool" where
  "name_is_text p = (case get_prop p ''name'' of JStr s \<Rightarrow> True | _ \<Rightarrow> False)"

definition names_are_text :: "object_store \<Rightarrow> bool" where
  "names_are_text st = list_all name_is_text (records st)"

text \<open>
  The engine's invariants: no two records share a key, and the key generator is ahead
  of every numeric key in the store unless it is exhausted (beyond \<open>2 ^ 53\<close>). The
  freshly created store has both and every operation keeps them
  (\<open>store_ok_addPatient\<close>, \<open>store_ok_updatePatient\<close>, \<open>store_ok_deletePatient\<close> below).
\<close>

definition keys_distinct :: "object_store \<Rightarrow> bool" where
  "keys_distinct st = distinct (map key_of (records st))"

fun key_below :: "int \<Rightarrow> jsval \<Rightarrow> bool" where
  "key_below c (JNum n) = (n < c \<or> c > 2 ^ 53)"
| "key_below c k = True"

definition generator_ahead :: "object_store \<Rightarrow> bool" where
  "generator_ahead st = list_all (\<lambda>r. key_below (current_number st) (key_of r)) (records st)"

definition store_ok :: "object_store \<Rightarrow> bool" where
  "store_ok st = (keys_distinct st \<and> generator_ahead st)"

text \<open>Records stay in ascending key order, and every stored key is a valid key.\<close>

definition keys_sorted :: "object_store \<Rightarrow> bool" where
  "keys_sorted st =
     (sorted_wrt key_less (map key_of (records st)) \<and>
      list_all (\<lambda>r. valid_key (key_of r)) (records st))"

text \<open>The two tests of the filter callback of \<^verbatim>\<open>searchPatients\<close>, each on its own.\<close>

definition id_hit :: "parsed \<Rightarrow> obj \<Rightarrow> bool" where
  "id_hit searchId p =
     (case searchId of Num n \<Rightarrow> get_prop p ''id'' = JNum n | _ \<Rightarrow> False)"

definition name_hit :: "string \<Rightarrow> obj \<Rightarrow> bool" where
  "name_hit needle p =
     (case get_prop p ''name'' of
        JStr nm \<Rightarrow> includes_str (toLowerCase nm) needle
      | _ \<Rightarrow> False)"

text \<open>
  The decimal integer that the leading characters of a term form, read without
  \<^verbatim>\<open>parseInt\<close>: the value of the longest prefix of decimal digits (\<open>None\<close> when the
  term does not start with a digit).
\<close>

definition is_digit :: "char \<Rightarrow> bool" where
  "is_digit c = (48 \<le> (of_char c :: nat) \<and> (of_char c :: nat) \<le> 57)"

definition decimal_value :: "string \<Rightarrow> nat" where
  "decimal_value ds = foldl (\<lambda>a c. a * 10 + (of_char c - 48)) 0 ds"

definition leading_integer :: "string \<Rightarrow> nat option" where
  "leading_integer s =
     (let ds = takeWhile is_digit s
      in if ds = [] then None else Some (decimal_value ds))"

text \<open>
  A caller that awaits each call before the next: a sequence of inserts and deletes run
  against one handle, returning the ids that the inserts resolved with, in order.
\<close>

datatype store_op = Insert string obj | Delete jsval

fun run_ops :: "store_op list \<Rightarrow> patient_database \<Rightarrow> jsval list \<times> patient_database" where
  "run_ops [] h = ([], h)"
| "run_ops (Insert now patientData # ops) h =
     (let (r, h') = addPatient now patientData h;
          (ks, h'') = run_ops ops h'
      in (case r of Resolved k \<Rightarrow> (k # ks, h'') | _ \<Rightarrow> (ks, h'')))"
| "run_ops (Delete ident # ops) h = run_ops ops (snd (deletePatient ident h))"

fun carries_no_id :: "store_op \<Rightarrow> bool" where
  "carries_no_id (Insert now patientData) = (get_prop patientData ''id'' = JUndefined)"
| "carries_no_id (Delete ident) = True"

fun is_insert :: "store_op \<Rightarrow> bool" where
  "is_insert (Insert now patientData) = True"
| "is_insert (Delete ident) = False"

section \<open>Example data\<close>

definition fresh_store :: object_store where
  "fresh_store = \<lparr>records = [], current_number = 1\<rparr>"

definition bob :: obj where
  "bob = [''name'' \<mapsto> JStr ''Bob'', ''age'' \<mapsto> JNum 45, ''sex'' \<mapsto> JStr ''M'',
          ''notes'' \<mapsto> JStr []]"

definition jon :: obj where
  "jon = [''id'' \<mapsto> JNum 7, ''name'' \<mapsto> JStr ''Jon'', ''age'' \<mapsto> JNum 52,
          ''sex'' \<mapsto> JStr ''M'', ''createdAt'' \<mapsto> JStr ''2024-03-01T09:00:00.000Z'']"

definition eleven :: obj where
  "eleven = [''id'' \<mapsto> JNum 8, ''name'' \<mapsto> JStr ''7-Eleven'', ''age'' \<mapsto> JNum 38,
             ''sex'' \<mapsto> JStr ''F'', ''createdAt'' \<mapsto> JStr ''2024-03-01T09:05:00.000Z'']"

definition clinic :: object_store where
  "clinic = \<lparr>records = [jon, eleven], current_number = 9\<rparr>"

definition alice :: obj where
  "alice = [''id'' \<mapsto> JNum 1, ''name'' \<mapsto> JStr ''Alice Smith'', ''age'' \<mapsto> JNum 30,
            ''sex'' \<mapsto> JStr ''F'', ''createdAt'' \<mapsto> JStr ''2024-02-01T08:00:00.000Z'']"

definition ward :: object_store where
  "ward = \<lparr>records = [alice, jon], current_number = 8\<rparr>"

text \<open>A candidate without a name, which the store accepts as it accepts any object.\<close>

definition anonymous :: obj where
  "anonymous = [''age'' \<mapsto> JNum 45, ''sex'' \<mapsto> JStr ''M'']"

text \<open>Candidates and updates that carry the identity fields themselves.\<close>

definition zed :: obj where
  "zed = [''id'' \<mapsto> JNum 0, ''name'' \<mapsto> JStr ''Zed'', ''age'' \<mapsto> JNum 61,
          ''sex'' \<mapsto> JStr ''M'']"

definition pushy :: obj where
  "pushy = [''id'' \<mapsto> JNum 999, ''createdAt'' \<mapsto> JStr ''bogus'', ''name'' \<mapsto> JStr ''Bob'',
            ''age'' \<mapsto> JNum 45, ''sex'' \<mapsto> JStr ''M'']"

definition sneaky :: obj where
  "sneaky = [''notes'' \<mapsto> JStr ''x'', ''id'' \<mapsto> JNum 999, ''createdAt'' \<mapsto> JStr ''bogus'']"

definition five :: obj where
  "five = [''id'' \<mapsto> JNum 5, ''name'' \<mapsto> JStr ''Eve'', ''age'' \<mapsto> JNum 27,
           ''sex'' \<mapsto> JStr ''F'']"

definition three :: obj where
  "three = [''id'' \<mapsto> JNum 3, ''name'' \<mapsto> JStr ''Dan'', ''age'' \<mapsto> JNum 33,
            ''sex'' \<mapsto> JStr ''M'']"

section \<open>Basic facts\<close>

subsection \<open>Objects and example data\<close>

lemma get_prop_upd: "get_prop (ob(k \<mapsto> v)) k' = (if k' = k then v else get_prop ob k')"
  by (simp add: get_prop_def)

lemma get_prop_add:
  "get_prop (a ++ b) f = (if f \<in> dom b then get_prop b f else get_prop a f)"
  by (auto simp: get_prop_def map_add_def split: option.splits)

lemma key_of_upd_id: "key_of (v(''id'' \<mapsto> k)) = k"
  by (simp add: key_of_def get_prop_def)

lemma key_of_createdAt: "key_of (pd(''createdAt'' \<mapsto> v)) = get_prop pd ''id''"
  by (simp add: key_of_def get_prop_def)

lemma jon_props:
  "get_prop jon ''id'' = JNum 7" "get_prop jon ''name'' = JStr ''Jon''"
  by (simp_all add: jon_def get_prop_def)

lemma eleven_props:
  "get_prop eleven ''id'' = JNum 8" "get_prop eleven ''name'' = JStr ''7-Eleven''"
  by (simp_all add: eleven_def get_prop_def)

lemma alice_props:
  "get_prop alice ''id'' = JNum 1" "get_prop alice ''name'' = JStr ''Alice Smith''"
  by (simp_all add: alice_def get_prop_def)

lemma bob_no_id: "get_prop bob ''id'' = JUndefined"
  by (simp add: bob_def get_prop_def)

lemma pushy_id: "get_prop pushy ''id'' = JNum 999"
  by (simp add: pushy_def get_prop_def)

lemma five_id: "get_prop five ''id'' = JNum 5"
  by (simp add: five_def get_prop_def)

lemma three_id: "get_prop three ''id'' = JNum 3"
  by (simp add: three_def get_prop_def)

lemma clinic_names: "names_are_text clinic"
  by (simp add: names_are_text_def clinic_def name_is_text_def jon_props eleven_props)

lemma clinic_keys: "key_of ` set (records clinic) = {JNum 7, JNum 8}"
  by (simp add: clinic_def key_of_def jon_props eleven_props)

lemma clinic_distinct: "keys_distinct clinic"
  by (simp add: keys_distinct_def clinic_def key_of_def jon_props eleven_props)

lemma clinic_get_jon: "store_get (records clinic) (JNum 7) = Some jon"
  by (simp add: store_get_def clinic_def key_of_def jon_props)

lemma ward_names: "names_are_text ward"
  by (simp add: names_are_text_def ward_def name_is_text_def alice_props jon_props)

lemma jon_neq_eleven: "jon \<noteq> eleven"
proof
  assume "jon = eleven"
  then have "get_prop jon ''id'' = get_prop eleven ''id''" by simp
  then show False by (simp add: jon_props eleven_props)
qed

lemma name_is_textE: "name_is_text p \<Longrightarrow> \<exists>s. get_prop p ''name'' = JStr s"
  by (cases "get_prop p ''name''") (simp_all add: name_is_text_def)

lemma filter_throwing_total:
  "\<forall>x\<in>set xs. f x = Some (g x) \<Longrightarrow> filter_throwing f xs = Some (filter g xs)"
  by (induction xs) auto

subsection \<open>Strings\<close>

lemma ws_not_upper: "is_ws c \<Longrightarrow> \<not> is_upper c"
  by (auto simp: is_ws_def is_upper_def)

lemma lower_char_ws: "is_ws c \<Longrightarrow> lower_char c = c"
  by (simp add: lower_char_def ws_not_upper)

lemma of_char_lower: "is_upper c \<Longrightarrow> (of_char (lower_char c) :: nat) = of_char c + 32"
  by (cases c) (auto simp: lower_char_def is_upper_def of_bool_def split: if_splits)

lemma is_ws_lower_char: "is_ws (lower_char c) = is_ws c"
proof (cases "is_upper c")
  case True
  then have "(of_char (lower_char c) :: nat) = of_char c + 32" by (rule of_char_lower)
  with True show ?thesis by (auto simp: is_ws_def is_upper_def)
next
  case False
  then show ?thesis by (simp add: lower_char_def)
qed

lemma dropWhile_ws_lower:
  "dropWhile is_ws (map lower_char s) = map lower_char (dropWhile is_ws s)"
  by (induction s) (simp_all add: is_ws_lower_char)

text \<open>
Lower-casing and trimming commute, so "the lower-cased trimmed term" can be read either way.
\<close>

lemma trim_toLowerCase: "trim (toLowerCase s) = toLowerCase (trim s)"
  by (simp add: trim_def toLowerCase_def dropWhile_ws_lower rev_map)

lemma dropWhile_all: "\<forall>c\<in>set s. P c \<Longrightarrow> dropWhile P s = []"
  by simp

lemma parseInt_blank:
  assumes "\<forall>c\<in>set s. is_ws c"
  shows "parseInt s = NaN"
  by (simp add: parseInt_def has_hex_prefix_def dropWhile_all [OF assms])

lemma trim_blank:
  assumes "\<forall>c\<in>set s. is_ws c"
  shows "trim s = []"
  by (simp add: trim_def dropWhile_all [OF assms])

lemma toLowerCase_blank: "\<forall>c\<in>set s. is_ws c \<Longrightarrow> toLowerCase s = s"
  by (simp add: toLowerCase_def lower_char_ws map_idI)

lemma includes_str_empty: "includes_str hay []"
  by (cases hay) (simp_all add: starts_with_def)

text \<open>
\<open>includes_str\<close> is substring containment.
\<close>

lemma includes_str_iff: "includes_str hay needle \<longleftrightarrow> (\<exists>pre post. hay = pre @ needle @ post)"
proof (induction hay)
  case Nil
  then show ?case by auto
next
  case (Cons c cs)
  have sw: "starts_with (c # cs) needle \<longleftrightarrow> (\<exists>post. c # cs = needle @ post)"
    unfolding starts_with_def
    by (metis append_eq_conv_conj append_take_drop_id)
  show ?case
  proof
    assume "includes_str (c # cs) needle"
    then consider "starts_with (c # cs) needle" | "includes_str cs needle" by auto
    then show "\<exists>pre post. c # cs = pre @ needle @ post"
    proof cases
      case 1
      then obtain post where "c # cs = [] @ needle @ post" using sw by auto
      then show ?thesis by blast
    next
      case 2
      then obtain pre post where "cs = pre @ needle @ post" using Cons.IH by auto
      then have "c # cs = (c # pre) @ needle @ post" by simp
      then show ?thesis by blast
    qed
  next
    assume "\<exists>pre post. c # cs = pre @ needle @ post"
    then obtain pre post where e: "c # cs = pre @ needle @ post" by auto
    show "includes_str (c # cs) needle"
    proof (cases pre)
      case Nil
      with e have "starts_with (c # cs) needle" using sw by auto
      then show ?thesis by simp
    next
      case (Cons a pre')
      with e have "cs = pre' @ needle @ post" by simp
      with Cons.IH show ?thesis by auto
    qed
  qed
qed

lemma lower_alice: "toLowerCase ''Alice Smith'' = ''alice smith''"
  by (simp add: toLowerCase_def lower_char_def is_upper_def)

lemma term_ALICE: "trim (toLowerCase ''ALICE'') = ''alice''"
  by (simp add: toLowerCase_def lower_char_def is_upper_def trim_def is_ws_def)

lemma term_lice_sm: "trim (toLowerCase ''lice sm'') = ''lice sm''"
  by (simp add: toLowerCase_def lower_char_def is_upper_def trim_def is_ws_def)

subsection \<open>Rounding to a double\<close>

lemma shift_count_small: "n < 2 ^ 53 \<Longrightarrow> shift_count n = 0"
  by (simp add: shift_count.simps)

lemma to_double_small: "n < 2 ^ 53 \<Longrightarrow> to_double n = Some n"
proof -
  assume a: "n < 2 ^ 53"
  have "(2::nat) ^ 53 \<le> 2 ^ 1024" by (rule power_increasing) simp_all
  with a have "\<not> n \<ge> 2 ^ 1024" by linarith
  with a show ?thesis by (simp add: to_double_def shift_count_small)
qed

lemma shift_count_2_53: "shift_count 9007199254740992 = 1"
  by (simp add: shift_count.simps [of 9007199254740992] shift_count_small)

lemma to_double_2_53: "to_double 9007199254740992 = Some 9007199254740992"
  by (simp add: to_double_def shift_count_2_53)

text \<open>Every natural number up to \<open>2 ^ 53\<close> is a Number.\<close>

lemma to_double_exact: "n \<le> 2 ^ 53 \<Longrightarrow> to_double n = Some n"
proof (cases "n < 2 ^ 53")
  case True
  then show ?thesis by (rule to_double_small)
next
  case False
  assume "n \<le> 2 ^ 53"
  with False have "n = 2 ^ 53" by simp
  then show ?thesis by (simp add: to_double_2_53)
qed

text \<open>Beyond, the nearest double: \<open>2 ^ 53 + 1\<close> lies half way and goes to the even side.\<close>

lemma to_double_2_53_1: "to_double 9007199254740993 = Some 9007199254740992"
  by (simp add: to_double_def shift_count.simps [of 9007199254740993] shift_count_small)

lemma to_double_2_53_3: "to_double 9007199254740995 = Some 9007199254740996"
  by (simp add: to_double_def shift_count.simps [of 9007199254740995] shift_count_small)

subsection \<open>parseInt on particular terms\<close>

lemma p7: "parseInt ''7'' = Num 7"
  by (simp add: parseInt_def is_ws_def has_hex_prefix_def digit_val_def math_int_def
      to_double_small)

lemma p_7eleven: "parseInt ''7-Eleven'' = Num 7"
  by (simp add: parseInt_def is_ws_def has_hex_prefix_def digit_val_def math_int_def
      to_double_small)

lemma p_hex: "parseInt ''0x1F'' = Num 31"
  by (simp add: parseInt_def is_ws_def has_hex_prefix_def digit_val_def math_int_def
      to_double_small)

lemma p_ALICE: "parseInt ''ALICE'' = NaN"
  by (simp add: parseInt_def is_ws_def has_hex_prefix_def digit_val_def)

lemma p_lice_sm: "parseInt ''lice sm'' = NaN"
  by (simp add: parseInt_def is_ws_def has_hex_prefix_def digit_val_def)

lemma p_JON: "parseInt '' JON  '' = NaN"
  by (simp add: parseInt_def is_ws_def has_hex_prefix_def digit_val_def)

lemma p_big: "parseInt ''9007199254740993'' = Num 9007199254740992"
  by (simp add: parseInt_def is_ws_def has_hex_prefix_def digit_val_def math_int_def
      to_double_2_53_1)

lemma term_JON: "trim (toLowerCase '' JON  '') = ''jon''"
  by (simp add: toLowerCase_def lower_char_def is_upper_def trim_def is_ws_def)

lemma lower_Jon: "toLowerCase ''Jon'' = ''jon''"
  by (simp add: toLowerCase_def lower_char_def is_upper_def)

lemma lower_7eleven: "toLowerCase ''7-Eleven'' = ''7-eleven''"
  by (simp add: toLowerCase_def lower_char_def is_upper_def)

lemma term_7: "trim (toLowerCase ''7'') = ''7''"
  by (simp add: toLowerCase_def lower_char_def is_upper_def trim_def is_ws_def)

lemma term_7eleven: "trim (toLowerCase ''7-Eleven'') = ''7-eleven''"
  by (simp add: toLowerCase_def lower_char_def is_upper_def trim_def is_ws_def)

lemma term_hex: "trim (toLowerCase ''0x1F'') = ''0x1f''"
  by (simp add: toLowerCase_def lower_char_def is_upper_def trim_def is_ws_def)

lemma li7: "leading_integer ''7-Eleven'' = Some 7"
  by (simp add: leading_integer_def is_digit_def decimal_value_def)

subsection \<open>parseInt on a decimal prefix\<close>

lemma digit_val_10: "digit_val 10 c = (if is_digit c then Some (of_char c - 48) else None)"
  by (auto simp: digit_val_def is_digit_def Let_def)

lemma digits_prefix_10:
  "digits_prefix 10 s = map (\<lambda>c. of_char c - 48) (takeWhile is_digit s)"
  by (induction s) (simp_all add: digit_val_10)

lemma math_int_decimal:
  "foldl (\<lambda>a d. a * 10 + d) a0 (map (\<lambda>c. of_char c - 48) ds)
     = foldl (\<lambda>a c. a * 10 + (of_char c - 48)) a0 ds"
  by (induction ds arbitrary: a0) simp_all

lemma digit_not_ws: "is_digit c \<Longrightarrow> \<not> is_ws c"
  by (auto simp: is_digit_def is_ws_def)

lemma digit_not_sign: "is_digit c \<Longrightarrow> c \<noteq> CHR ''+'' \<and> c \<noteq> CHR ''-''"
  by (auto simp: is_digit_def)

lemma parseInt_leading_integer:
  assumes "leading_integer s = Some n" and "\<not> has_hex_prefix s"
  shows "parseInt s = (case to_double n of None \<Rightarrow> Infinite | Some m \<Rightarrow> Num (int m))"
proof -
  from assms(1) have ne: "takeWhile is_digit s \<noteq> []"
    and n: "n = decimal_value (takeWhile is_digit s)"
    by (auto simp: leading_integer_def Let_def split: if_splits)
  from ne obtain c cs where s: "s = c # cs" and c: "is_digit c"
    by (cases s) (auto split: if_splits)
  have S: "dropWhile is_ws s = s" using s c by (simp add: digit_not_ws)
  have hd: "hd s \<noteq> CHR ''+''" "hd s \<noteq> CHR ''-''" "s \<noteq> []"
    using s c digit_not_sign by auto
  have Z: "digits_prefix 10 s \<noteq> []" using ne by (simp add: digits_prefix_10)
  have "math_int 10 (digits_prefix 10 s) = decimal_value (takeWhile is_digit s)"
    by (simp add: math_int_def decimal_value_def digits_prefix_10 math_int_decimal)
  with S hd Z assms(2) n show ?thesis
    by (simp add: parseInt_def Let_def split: option.splits)
qed

subsection \<open>The object store\<close>

lemma store_get_None_iff: "store_get rs k = None \<longleftrightarrow> k \<notin> key_of ` set rs"
  by (auto simp: store_get_def find_None_iff)

lemma store_get_key: "store_get rs k = Some r \<Longrightarrow> key_of r = k \<and> r \<in> set rs"
  by (auto simp: store_get_def find_Some_iff)

lemma set_insert_sorted: "set (insert_sorted r xs) = insert r (set xs)"
  by (induction xs) auto

lemma set_store_record:
  "set (store_record r rs) = insert r {x \<in> set rs. key_of x \<noteq> key_of r}"
  by (simp add: store_record_def set_insert_sorted)

lemma distinct_insert_sorted:
  "distinct (map key_of xs) \<Longrightarrow> key_of r \<notin> key_of ` set xs \<Longrightarrow>
   distinct (map key_of (insert_sorted r xs))"
  by (induction xs) (auto simp: set_insert_sorted)

lemma distinct_store_record:
  "distinct (map key_of rs) \<Longrightarrow> distinct (map key_of (store_record r rs))"
  unfolding store_record_def
  by (rule distinct_insert_sorted) (auto simp: distinct_map_filter)

lemma find_insert_sorted_hit:
  "P r \<Longrightarrow> \<forall>x\<in>set xs. \<not> P x \<Longrightarrow> find P (insert_sorted r xs) = Some r"
  by (induction xs) auto

lemma find_insert_sorted_miss:
  "\<not> P r \<Longrightarrow> find P (insert_sorted r xs) = find P xs"
  by (induction xs) auto

lemma find_filter_same:
  "\<forall>x\<in>set xs. P x \<longrightarrow> Q x \<Longrightarrow> find P (filter Q xs) = find P xs"
  by (induction xs) auto

lemma store_get_store_record_same:
  "store_get (store_record r rs) (key_of r) = Some r"
  unfolding store_get_def store_record_def
  by (rule find_insert_sorted_hit) auto

lemma store_get_store_record_other:
  "k \<noteq> key_of r \<Longrightarrow> store_get (store_record r rs) k = store_get rs k"
  unfolding store_get_def store_record_def
  by (simp add: find_insert_sorted_miss find_filter_same)

subsection \<open>What add and put do\<close>

lemma idb_store_exhausted:
  assumes "key_of v = JUndefined" and "\<not> current_number st \<le> 2 ^ 53"
  shows "idb_store b st v = Failure ConstraintError"
  using assms by (simp add: idb_store_def generate_key_def)

lemma idb_store_explicit:
  assumes "valid_key (key_of v)" and "b \<longrightarrow> key_of v \<notin> key_of ` set (records st)"
  shows "idb_store b st v =
           Success (key_of v)
             ((possibly_update_generator st (key_of v))\<lparr>records := store_record v (records st)\<rparr>)"
proof -
  from assms(1) have "key_of v \<noteq> JUndefined" by auto
  moreover from assms(2) have "b \<longrightarrow> store_get (records st) (key_of v) = None"
    by (simp add: store_get_None_iff)
  ultimately show ?thesis using assms(1) by (simp add: idb_store_def)
qed

lemma generator_aheadD:
  "generator_ahead st \<Longrightarrow> r \<in> set (records st) \<Longrightarrow> key_of r = JNum n \<Longrightarrow>
   n < current_number st \<or> current_number st > 2 ^ 53"
  by (fastforce simp: generator_ahead_def list_all_iff)

lemma generator_next_unused:
  assumes "generator_ahead st" and "current_number st \<le> 2 ^ 53"
  shows "JNum (current_number st) \<notin> key_of ` set (records st)"
proof
  assume "JNum (current_number st) \<in> key_of ` set (records st)"
  then obtain r where "r \<in> set (records st)" "key_of r = JNum (current_number st)" by auto
  with assms(1) have "current_number st < current_number st \<or> current_number st > 2 ^ 53"
    using generator_aheadD by blast
  with assms(2) show False by simp
qed

lemma idb_store_generated:
  assumes "store_ok st" and "key_of v = JUndefined" and "current_number st \<le> 2 ^ 53"
  shows "idb_store b st v =
           Success (JNum (current_number st))
             \<lparr>records = store_record (v(''id'' \<mapsto> JNum (current_number st))) (records st),
              current_number = current_number st + 1\<rparr>"
proof -
  from assms(1,3) have "JNum (current_number st) \<notin> key_of ` set (records st)"
    by (simp add: store_ok_def generator_next_unused)
  then have "store_get (records st) (JNum (current_number st)) = None"
    by (simp add: store_get_None_iff)
  with assms(2,3) show ?thesis
    by (simp add: idb_store_def generate_key_def)
qed

lemma idb_store_Success_stored:
  assumes "idb_store b st v = Success k st'"
  shows "\<exists>r. store_get (records st') k = Some r \<and> key_of r = k \<and>
             (\<forall>f. f \<noteq> ''id'' \<longrightarrow> get_prop r f = get_prop v f)"
proof (cases "key_of v = JUndefined")
  case True
  with assms obtain n where k: "k = JNum n"
    and st': "records st' = store_record (v(''id'' \<mapsto> JNum n)) (records st)"
    by (auto simp: idb_store_def generate_key_def split: if_splits)
  have "store_get (records st') k = Some (v(''id'' \<mapsto> JNum n))"
    using store_get_store_record_same [of "v(''id'' \<mapsto> JNum n)" "records st"]
    by (simp add: st' k key_of_upd_id)
  then show ?thesis by (simp add: k key_of_upd_id get_prop_upd)
next
  case False
  with assms have k: "k = key_of v" and st': "records st' = store_record v (records st)"
    by (auto simp: idb_store_def split: if_splits)
  have "store_get (records st') k = Some v"
    using store_get_store_record_same [of v "records st"] by (simp add: st' k)
  then show ?thesis by (simp add: k)
qed

subsection \<open>The store invariants hold initially and are kept\<close>

lemma store_ok_fresh: "store_ok fresh_store"
  by (simp add: store_ok_def keys_distinct_def generator_ahead_def fresh_store_def)

lemma generator_ahead_store_record:
  assumes "generator_ahead \<lparr>records = rs, current_number = c\<rparr>" and "c \<le> c'"
    and "key_below c' (key_of r)"
  shows "generator_ahead \<lparr>records = store_record r rs, current_number = c'\<rparr>"
proof -
  have mono: "key_below c k \<Longrightarrow> key_below c' k" for k
    using assms(2) by (cases k) auto
  with assms(1,3) show ?thesis
    by (auto simp: generator_ahead_def list_all_iff set_store_record)
qed

lemma store_ok_generated:
  assumes "store_ok st" and "current_number st \<le> 2 ^ 53"
  shows "store_ok \<lparr>records = store_record (v(''id'' \<mapsto> JNum (current_number st))) (records st),
                   current_number = current_number st + 1\<rparr>"
proof -
  have "generator_ahead \<lparr>records = records st, current_number = current_number st\<rparr>"
    using assms(1) by (simp add: store_ok_def generator_ahead_def)
  then have "generator_ahead
     \<lparr>records = store_record (v(''id'' \<mapsto> JNum (current_number st))) (records st),
      current_number = current_number st + 1\<rparr>"
    by (rule generator_ahead_store_record) (simp_all add: key_of_upd_id)
  moreover have "distinct (map key_of
      (store_record (v(''id'' \<mapsto> JNum (current_number st))) (records st)))"
    using assms(1) by (simp add: store_ok_def keys_distinct_def distinct_store_record)
  ultimately show ?thesis by (simp add: store_ok_def keys_distinct_def)
qed

lemma store_ok_explicit:
  assumes "store_ok st" and that: "key_of v = k"
  shows "store_ok ((possibly_update_generator st k)\<lparr>records := store_record v (records st)\<rparr>)"
proof -
  have g0: "generator_ahead \<lparr>records = records st, current_number = current_number st\<rparr>"
    using assms(1) by (simp add: store_ok_def generator_ahead_def)
  have le: "current_number st \<le> current_number (possibly_update_generator st k)"
    by (cases k) (auto simp: possibly_update_generator_def Let_def min_def)
  have new: "key_below (current_number (possibly_update_generator st k)) (key_of v)"
    unfolding that
    by (cases k) (auto simp: possibly_update_generator_def Let_def min_def)
  have "generator_ahead \<lparr>records = store_record v (records st),
          current_number = current_number (possibly_update_generator st k)\<rparr>"
    using g0 le new by (rule generator_ahead_store_record)
  moreover have "distinct (map key_of (store_record v (records st)))"
    using assms(1) by (simp add: store_ok_def keys_distinct_def distinct_store_record)
  ultimately show ?thesis
    by (simp add: store_ok_def keys_distinct_def generator_ahead_def)
qed

lemma store_ok_idb_store:
  assumes "store_ok st" and "idb_store b st v = Success k st'"
  shows "store_ok st'"
proof (cases "key_of v = JUndefined")
  case True
  show ?thesis
  proof (cases "current_number st \<le> 2 ^ 53")
    case le: True
    from idb_store_generated [OF assms(1) True le, of b] assms(2)
    have "st' = \<lparr>records = store_record (v(''id'' \<mapsto> JNum (current_number st))) (records st),
                 current_number = current_number st + 1\<rparr>" by simp
    with store_ok_generated [OF assms(1) le] show ?thesis by simp
  next
    case False
    with True assms(2) show ?thesis by (simp add: idb_store_exhausted)
  qed
next
  case False
  with assms(2) have
    "st' = (possibly_update_generator st (key_of v))\<lparr>records := store_record v (records st)\<rparr>"
    by (auto simp: idb_store_def split: if_splits)
  with store_ok_explicit [OF assms(1) refl, of v] show ?thesis by simp
qed

lemma store_ok_addPatient:
  assumes "store_ok st" and "addPatient now pd (Ready st) = (r, Ready st')"
  shows "store_ok st'"
  using assms
  by (auto simp: addPatient_def Let_def split: request.splits dest: store_ok_idb_store)

lemma store_ok_updatePatient:
  assumes "store_ok st" and "updatePatient ident U (Ready st) = (r, Ready st')"
  shows "store_ok st'"
  using assms
  by (auto simp: updatePatient_def Let_def split: request.splits if_splits option.splits
      dest: store_ok_idb_store)

lemma store_ok_delete:
  assumes "store_ok st"
  shows "store_ok (st\<lparr>records := store_delete k (records st)\<rparr>)"
  using assms
  by (auto simp: store_ok_def keys_distinct_def generator_ahead_def store_delete_def
      list_all_iff distinct_map_filter)

lemma store_ok_deletePatient:
  assumes "store_ok st" and "deletePatient ident (Ready st) = (r, Ready st')"
  shows "store_ok st'"
  using assms store_ok_delete [OF assms(1), of ident]
  by (auto simp: deletePatient_def split: if_splits)

subsection \<open>Inserts on concrete stores\<close>

lemma add_bob_fresh:
  "addPatient now bob (Ready fresh_store) =
     (Resolved (JNum 1),
      Ready \<lparr>records = [bob(''createdAt'' \<mapsto> JStr now, ''id'' \<mapsto> JNum 1)],
             current_number = 2\<rparr>)"
  by (simp add: addPatient_def idb_store_def key_of_createdAt bob_no_id generate_key_def
      fresh_store_def store_get_def store_record_def)

lemma add_pushy_fresh:
  "addPatient now pushy (Ready fresh_store) =
     (Resolved (JNum 999),
      Ready \<lparr>records = [pushy(''createdAt'' \<mapsto> JStr now)], current_number = 1000\<rparr>)"
  by (simp add: addPatient_def idb_store_def key_of_createdAt pushy_id 
      possibly_update_generator_def fresh_store_def store_get_def store_record_def)

lemma zed_id: "get_prop zed ''id'' = JNum 0"
  by (simp add: zed_def get_prop_def)

lemma add_zed_fresh:
  "addPatient now zed (Ready fresh_store) =
     (Resolved (JNum 0),
      Ready \<lparr>records = [zed(''createdAt'' \<mapsto> JStr now)], current_number = 1\<rparr>)"
  by (simp add: addPatient_def idb_store_def key_of_createdAt zed_id
      possibly_update_generator_def fresh_store_def store_get_def store_record_def)

lemma addPatient_Resolved_stored:
  assumes "addPatient now patientData (Ready st) = (Resolved k, h')"
  shows "\<exists>st' r. h' = Ready st' \<and> store_get (records st') k = Some r \<and> key_of r = k \<and>
           get_prop r ''createdAt'' = JStr now \<and>
           (\<forall>f. f \<noteq> ''id'' \<and> f \<noteq> ''createdAt'' \<longrightarrow> get_prop r f = get_prop patientData f)"
proof -
  let ?p = "patientData(''createdAt'' \<mapsto> JStr now)"
  from assms obtain st' where s: "idb_store True st ?p = Success k st'" and h: "h' = Ready st'"
    by (auto simp: addPatient_def split: request.splits)
  from idb_store_Success_stored [OF s] obtain r where
    "store_get (records st') k = Some r" "key_of r = k"
    "\<forall>f. f \<noteq> ''id'' \<longrightarrow> get_prop r f = get_prop ?p f" by blast
  with h show ?thesis by (auto simp: get_prop_upd)
qed

lemma addPatient_generated:
  assumes "store_ok st" and "get_prop patientData ''id'' = JUndefined"
    and "current_number st \<le> 2 ^ 53"
  shows "\<exists>st'. addPatient now patientData (Ready st)
                  = (Resolved (JNum (current_number st)), Ready st') \<and>
               store_ok st' \<and> current_number st' = current_number st + 1"
proof -
  let ?p = "patientData(''createdAt'' \<mapsto> JStr now)"
  let ?st' = "\<lparr>records = store_record (?p(''id'' \<mapsto> JNum (current_number st))) (records st),
               current_number = current_number st + 1\<rparr>"
  from assms(2) have "key_of ?p = JUndefined" by (simp add: key_of_createdAt)
  with assms(1,3) have "idb_store True st ?p = Success (JNum (current_number st)) ?st'"
    by (simp add: idb_store_generated)
  then have "addPatient now patientData (Ready st)
               = (Resolved (JNum (current_number st)), Ready ?st')"
    by (simp add: addPatient_def)
  moreover have "store_ok ?st'" using assms(1,3) by (rule store_ok_generated)
  ultimately show ?thesis by simp
qed

lemma addPatient_exhausted:
  assumes "get_prop patientData ''id'' = JUndefined" and "\<not> current_number st \<le> 2 ^ 53"
  shows "addPatient now patientData (Ready st) = (Rejected ConstraintError, Ready st)"
proof -
  let ?p = "patientData(''createdAt'' \<mapsto> JStr now)"
  from assms(1) have "key_of ?p = JUndefined" by (simp add: key_of_createdAt)
  with assms(2) have "idb_store True st ?p = Failure ConstraintError"
    by (simp add: idb_store_exhausted)
  then show ?thesis by (simp add: addPatient_def)
qed

lemma deletePatient_state:
  assumes "store_ok st"
  shows "\<exists>st'. snd (deletePatient ident (Ready st)) = Ready st' \<and> store_ok st' \<and>
               current_number st' = current_number st"
  using assms store_ok_delete [OF assms, of ident]
  by (simp add: deletePatient_def)

subsection \<open>Records stay in key order\<close>

lemma str_less_trans: "str_less a b \<Longrightarrow> str_less b c \<Longrightarrow> str_less a c"
proof (induction a b arbitrary: c rule: str_less.induct)
  case 1
  then show ?case by simp
next
  case (2 d ds)
  then show ?case by (cases c) simp_all
next
  case (3 x xs)
  then show ?case by simp
next
  case (4 x xs y ys)
  show ?case
  proof (cases c)
    case Nil
    with 4 show ?thesis by simp
  next
    case (Cons z zs)
    with "4.prems" "4.IH" [of zs] show ?thesis by auto
  qed
qed

lemma str_less_total: "a \<noteq> b \<Longrightarrow> str_less a b \<or> str_less b a"
proof (induction a b rule: str_less.induct)
  case (4 x xs y ys)
  show ?case
  proof (cases "x = y")
    case True
    with 4 show ?thesis by auto
  next
    case False
    then show ?thesis
      using linorder_less_linear [of "of_char x :: nat" "of_char y"] by auto
  qed
qed simp_all


lemma key_less_trans: "key_less a b \<Longrightarrow> key_less b c \<Longrightarrow> key_less a c"
proof (cases a)
  case (JNum x)
  then show "key_less a b \<Longrightarrow> key_less b c \<Longrightarrow> key_less a c"
    by (cases b; cases c) auto
next
  case (JStr s)
  then show "key_less a b \<Longrightarrow> key_less b c \<Longrightarrow> key_less a c"
    by (cases b; cases c) (auto intro: str_less_trans)
qed simp_all

lemma key_less_total:
  "valid_key a \<Longrightarrow> valid_key b \<Longrightarrow> a \<noteq> b \<Longrightarrow> key_less a b \<or> key_less b a"
  by (cases a; cases b) (auto dest: str_less_total)


lemma sorted_insert_sorted:
  assumes "sorted_wrt key_less (map key_of xs)"
    and "\<forall>x\<in>set xs. valid_key (key_of x) \<and> key_of x \<noteq> key_of r"
    and "valid_key (key_of r)"
  shows "sorted_wrt key_less (map key_of (insert_sorted r xs))"
  using assms
proof (induction xs)
  case Nil
  then show ?case by simp
next
  case (Cons x xs)
  show ?case
  proof (cases "key_less (key_of r) (key_of x)")
    case True
    have "\<forall>y\<in>set xs. key_less (key_of r) (key_of y)"
      using True Cons.prems(1) by (auto intro: key_less_trans)
    with True Cons.prems(1) show ?thesis by simp
  next
    case False
    have "key_less (key_of x) (key_of r)"
      using False Cons.prems(2,3) key_less_total [of "key_of x" "key_of r"] by auto
    moreover have "sorted_wrt key_less (map key_of (insert_sorted r xs))"
      using Cons.IH Cons.prems by simp
    ultimately show ?thesis
      using False Cons.prems(1) by (simp add: set_insert_sorted)
  qed
qed

lemma sorted_filter_keys:
  "sorted_wrt key_less (map key_of rs) \<Longrightarrow> sorted_wrt key_less (map key_of (filter P rs))"
  by (induction rs) simp_all

lemma sorted_store_record:
  assumes "sorted_wrt key_less (map key_of rs)" and "\<forall>x\<in>set rs. valid_key (key_of x)"
    and "valid_key (key_of r)"
  shows "sorted_wrt key_less (map key_of (store_record r rs))"
  unfolding store_record_def
proof (rule sorted_insert_sorted)
  show "sorted_wrt key_less (map key_of (filter (\<lambda>x. key_of x \<noteq> key_of r) rs))"
    using assms(1) by (rule sorted_filter_keys)
  show "\<forall>x\<in>set (filter (\<lambda>x. key_of x \<noteq> key_of r) rs).
          valid_key (key_of x) \<and> key_of x \<noteq> key_of r"
    using assms(2) by simp
  show "valid_key (key_of r)" by (rule assms(3))
qed

lemma keys_sorted_fresh: "keys_sorted fresh_store"
  by (simp add: keys_sorted_def fresh_store_def)


lemma idb_store_Success_records:
  assumes "idb_store b st v = Success k st'"
  shows "\<exists>r. records st' = store_record r (records st) \<and> key_of r = k \<and> valid_key k"
proof (cases "key_of v = JUndefined")
  case True
  with assms obtain n where "k = JNum n"
    "records st' = store_record (v(''id'' \<mapsto> JNum n)) (records st)"
    by (auto simp: idb_store_def generate_key_def split: if_splits)
  then show ?thesis by (auto simp: key_of_upd_id)
next
  case False
  with assms have "k = key_of v" "records st' = store_record v (records st)" "valid_key k"
    by (auto simp: idb_store_def split: if_splits)
  then show ?thesis by auto
qed

lemma keys_sorted_idb_store:
  assumes "keys_sorted st" and "idb_store b st v = Success k st'"
  shows "keys_sorted st'"
proof -
  from idb_store_Success_records [OF assms(2)] obtain r where
    r: "records st' = store_record r (records st)" and v: "valid_key (key_of r)" by auto
  from assms(1) have s: "sorted_wrt key_less (map key_of (records st))"
    and a: "\<forall>x\<in>set (records st). valid_key (key_of x)"
    by (simp_all add: keys_sorted_def list_all_iff)
  from s a v have "sorted_wrt key_less (map key_of (store_record r (records st)))"
    by (rule sorted_store_record)
  moreover from a v have "\<forall>x\<in>set (store_record r (records st)). valid_key (key_of x)"
    by (auto simp: set_store_record)
  ultimately show ?thesis by (simp add: keys_sorted_def r list_all_iff)
qed

lemma keys_sorted_addPatient:
  assumes "keys_sorted st" and "addPatient now pd (Ready st) = (r, Ready st')"
  shows "keys_sorted st'"
  using assms
  by (auto simp: addPatient_def Let_def split: request.splits dest: keys_sorted_idb_store)

lemma keys_sorted_updatePatient:
  assumes "keys_sorted st" and "updatePatient ident U (Ready st) = (r, Ready st')"
  shows "keys_sorted st'"
  using assms
  by (auto simp: updatePatient_def Let_def split: request.splits if_splits option.splits
      dest: keys_sorted_idb_store)

lemma keys_sorted_deletePatient:
  assumes "keys_sorted st" and "deletePatient ident (Ready st) = (r, Ready st')"
  shows "keys_sorted st'"
  using assms
  by (auto simp: deletePatient_def keys_sorted_def store_delete_def list_all_iff
      sorted_filter_keys split: if_splits)

section \<open>Operations on an unopened handle\<close>

text \<open>
  C3, as the code has it. Every operation other than \<^verbatim>\<open>init\<close>, invoked while
  \<^verbatim>\<open>this.db\<close> is still \<^verbatim>\<open>null\<close>, fails fast: its promise rejects at once with
  the TypeError of \<^verbatim>\<open>this.db.transaction\<close>, and the handle and the database are
  untouched. The source has no dedicated not-initialised error.
\<close>

theorem unopened_rejects_TypeError:
  "addPatient now patientData (Unopened d) = (Rejected TypeError, Unopened d) \<and>
   getAllPatients (Unopened d) = Rejected TypeError \<and>
   getPatientById ident (Unopened d) = Rejected TypeError \<and>
   searchPatients searchTerm (Unopened d) = Rejected TypeError \<and>
   updatePatient ident updates (Unopened d) = (Rejected TypeError, Unopened d) \<and>
   deletePatient ident (Unopened d) = (Rejected TypeError, Unopened d)"
  by (simp add: addPatient_def getAllPatients_def getPatientById_def searchPatients_def
      updatePatient_def deletePatient_def)

text \<open>
  C3 as stated fails: inserting a record before \<^verbatim>\<open>init\<close> rejects with the
  TypeError, not with \<open>NotInitialized\<close>.
\<close>

theorem unopened_NotInitialized_counterexample:
  "fst (addPatient ''2024-01-01T00:00:00.000Z'' bob (Unopened None)) = Rejected TypeError \<and>
   fst (addPatient ''2024-01-01T00:00:00.000Z'' bob (Unopened None)) \<noteq> Rejected NotInitialized"
  by (simp add: addPatient_def)

section \<open>Insert\<close>

text \<open>
  C2, as the code has it. A caller-supplied \<^verbatim>\<open>createdAt\<close> is overwritten: whenever
  the insert resolves, the persisted record's \<^verbatim>\<open>createdAt\<close> is the insert time. The
  \<^verbatim>\<open>id\<close> is the key generator's next number when the candidate carries no
  \<^verbatim>\<open>id\<close>; a candidate that carries a valid \<^verbatim>\<open>id\<close> not yet in the store is stored
  under that very \<^verbatim>\<open>id\<close>.
\<close>

theorem addPatient_createdAt_and_id:
  assumes "store_ok st"
  shows "(get_prop patientData ''id'' = JUndefined \<and> current_number st \<le> 2 ^ 53 \<longrightarrow>
            (\<exists>st'. addPatient now patientData (Ready st)
                      = (Resolved (JNum (current_number st)), Ready st') \<and>
                    JNum (current_number st) \<notin> key_of ` set (records st) \<and>
                    store_get (records st') (JNum (current_number st))
                      = Some (patientData(''createdAt'' \<mapsto> JStr now,
                                          ''id'' \<mapsto> JNum (current_number st))))) \<and>
         (valid_key (get_prop patientData ''id'') \<and>
          get_prop patientData ''id'' \<notin> key_of ` set (records st) \<longrightarrow>
            (\<exists>st'. addPatient now patientData (Ready st)
                      = (Resolved (get_prop patientData ''id''), Ready st') \<and>
                    store_get (records st') (get_prop patientData ''id'')
                      = Some (patientData(''createdAt'' \<mapsto> JStr now)))) \<and>
         (\<forall>k h'. addPatient now patientData (Ready st) = (Resolved k, h') \<longrightarrow>
            (\<exists>st' r. h' = Ready st' \<and> store_get (records st') k = Some r \<and>
                     get_prop r ''id'' = k \<and> get_prop r ''createdAt'' = JStr now))"
proof (intro conjI impI allI)
  let ?p = "patientData(''createdAt'' \<mapsto> JStr now)"
  assume a: "get_prop patientData ''id'' = JUndefined \<and> current_number st \<le> 2 ^ 53"
  let ?n = "current_number st"
  let ?st' = "\<lparr>records = store_record (?p(''id'' \<mapsto> JNum ?n)) (records st),
               current_number = ?n + 1\<rparr>"
  from a have "key_of ?p = JUndefined" by (simp add: key_of_createdAt)
  with assms a have "idb_store True st ?p = Success (JNum ?n) ?st'"
    by (simp add: idb_store_generated)
  then have "addPatient now patientData (Ready st) = (Resolved (JNum ?n), Ready ?st')"
    by (simp add: addPatient_def)
  moreover have "JNum ?n \<notin> key_of ` set (records st)"
    using assms a by (simp add: store_ok_def generator_next_unused)
  moreover have "store_get (records ?st') (JNum ?n) = Some (?p(''id'' \<mapsto> JNum ?n))"
    using store_get_store_record_same [of "?p(''id'' \<mapsto> JNum ?n)" "records st"]
    by (simp add: key_of_upd_id)
  ultimately show "\<exists>st'. addPatient now patientData (Ready st)
                      = (Resolved (JNum ?n), Ready st') \<and>
                    JNum ?n \<notin> key_of ` set (records st) \<and>
                    store_get (records st') (JNum ?n) = Some (?p(''id'' \<mapsto> JNum ?n))"
    by blast
next
  let ?p = "patientData(''createdAt'' \<mapsto> JStr now)"
  let ?k = "get_prop patientData ''id''"
  assume a: "valid_key ?k \<and> ?k \<notin> key_of ` set (records st)"
  let ?st' = "(possibly_update_generator st ?k)\<lparr>records := store_record ?p (records st)\<rparr>"
  have k: "key_of ?p = ?k" by (rule key_of_createdAt)
  with a have "idb_store True st ?p = Success ?k ?st'"
    using idb_store_explicit [of ?p True st] by simp
  then have "addPatient now patientData (Ready st) = (Resolved ?k, Ready ?st')"
    by (simp add: addPatient_def)
  moreover have "store_get (records ?st') ?k = Some ?p"
    using store_get_store_record_same [of ?p "records st"] k by simp
  ultimately show "\<exists>st'. addPatient now patientData (Ready st) = (Resolved ?k, Ready st') \<and>
                    store_get (records st') ?k = Some ?p"
    by blast
next
  fix k h'
  assume "addPatient now patientData (Ready st) = (Resolved k, h')"
  from addPatient_Resolved_stored [OF this]
  show "\<exists>st' r. h' = Ready st' \<and> store_get (records st') k = Some r \<and>
                get_prop r ''id'' = k \<and> get_prop r ''createdAt'' = JStr now"
    by (auto simp: key_of_def)
qed

theorem addPatient_createdAt_and_id_witness:
  "store_ok fresh_store \<and>
   get_prop bob ''id'' = JUndefined \<and> current_number fresh_store \<le> 2 ^ 53 \<and>
   fst (addPatient ''2024-01-01T00:00:00.000Z'' bob (Ready fresh_store)) = Resolved (JNum 1) \<and>
   getPatientById (JNum 1) (snd (addPatient ''2024-01-01T00:00:00.000Z'' bob (Ready fresh_store)))
     = Resolved (Some (bob(''createdAt'' \<mapsto> JStr ''2024-01-01T00:00:00.000Z'',
                           ''id'' \<mapsto> JNum 1))) \<and>
   valid_key (get_prop pushy ''id'') \<and>
   get_prop pushy ''id'' \<notin> key_of ` set (records fresh_store) \<and>
   getPatientById (JNum 999)
       (snd (addPatient ''2024-01-01T00:00:00.000Z'' pushy (Ready fresh_store)))
     = Resolved (Some (pushy(''createdAt'' \<mapsto> JStr ''2024-01-01T00:00:00.000Z'')))"
  using addPatient_createdAt_and_id [of fresh_store bob "''2024-01-01T00:00:00.000Z''"]
    addPatient_createdAt_and_id [of fresh_store pushy "''2024-01-01T00:00:00.000Z''"]
  by (simp add: store_ok_fresh bob_no_id pushy_id add_bob_fresh add_pushy_fresh
      getPatientById_def store_get_def key_of_upd_id key_of_createdAt)
     (simp add: fresh_store_def)

text \<open>
  C2 as stated fails: on the empty store a candidate carrying \<^verbatim>\<open>id: 999\<close> is stored
  under 999, where the same candidate without its \<^verbatim>\<open>id\<close> gets 1.
\<close>

theorem addPatient_keeps_caller_id_counterexample:
  "fst (addPatient ''2024-01-01T00:00:00.000Z'' pushy (Ready fresh_store)) = Resolved (JNum 999) \<and>
   fst (addPatient ''2024-01-01T00:00:00.000Z''
          (pushy(''id'' := None)) (Ready fresh_store)) = Resolved (JNum 1)"
  by (simp add: add_pushy_fresh)
     (simp add: addPatient_def idb_store_def key_of_def get_prop_def store_get_def
        generate_key_def fresh_store_def)

section \<open>Sequences of inserts\<close>

lemma run_ops_generated:
  assumes "store_ok st" and "list_all carries_no_id ops"
  shows "\<exists>ns st'. run_ops ops (Ready st) = (map JNum ns, Ready st') \<and> store_ok st' \<and>
           sorted_wrt (<) ns \<and> (\<forall>n\<in>set ns. current_number st \<le> n \<and> n \<le> 2 ^ 53) \<and>
           (current_number st + int (length (filter is_insert ops)) \<le> 2 ^ 53 + 1 \<longrightarrow>
              length ns = length (filter is_insert ops))"
  using assms
proof (induction ops arbitrary: st)
  case Nil
  then show ?case by simp
next
  case (Cons op ops)
  show ?case
  proof (cases op)
    case (Insert now pd)
    with Cons.prems have noid: "get_prop pd ''id'' = JUndefined" and rest: "list_all carries_no_id ops"
      by simp_all
    show ?thesis
    proof (cases "current_number st \<le> 2 ^ 53")
      case True
      from addPatient_generated [OF Cons.prems(1) noid True, of now]
      obtain st1 where a: "addPatient now pd (Ready st) = (Resolved (JNum (current_number st)), Ready st1)"
        and ok1: "store_ok st1" and c1: "current_number st1 = current_number st + 1"
        by blast
      from Cons.IH [OF ok1 rest] obtain ns st' where
        r: "run_ops ops (Ready st1) = (map JNum ns, Ready st')" and ok': "store_ok st'"
        and s: "sorted_wrt (<) ns" and b: "\<forall>n\<in>set ns. current_number st1 \<le> n \<and> n \<le> 2 ^ 53"
        and l: "current_number st1 + int (length (filter is_insert ops)) \<le> 2 ^ 53 + 1 \<longrightarrow>
                  length ns = length (filter is_insert ops)"
        by blast
      have "run_ops (op # ops) (Ready st) = (map JNum (current_number st # ns), Ready st')"
        using Insert a r by simp
      moreover have "sorted_wrt (<) (current_number st # ns)"
        using s b c1 by auto
      moreover have "\<forall>n\<in>set (current_number st # ns). current_number st \<le> n \<and> n \<le> 2 ^ 53"
        using b c1 True by auto
      moreover have "current_number st + int (length (filter is_insert (op # ops))) \<le> 2 ^ 53 + 1 \<longrightarrow>
                       length (current_number st # ns) = length (filter is_insert (op # ops))"
        using l c1 Insert by simp
      ultimately show ?thesis using ok' by blast
    next
      case False
      from addPatient_exhausted [OF noid False, of now]
      have a: "addPatient now pd (Ready st) = (Rejected ConstraintError, Ready st)" .
      from Cons.IH [OF Cons.prems(1) rest] obtain ns st' where
        r: "run_ops ops (Ready st) = (map JNum ns, Ready st')" and ok': "store_ok st'"
        and s: "sorted_wrt (<) ns" and b: "\<forall>n\<in>set ns. current_number st \<le> n \<and> n \<le> 2 ^ 53"
        by blast
      have "run_ops (op # ops) (Ready st) = (map JNum ns, Ready st')"
        using Insert a r by simp
      moreover have "\<not> current_number st + int (length (filter is_insert (op # ops))) \<le> 2 ^ 53 + 1"
        using False Insert by simp
      ultimately show ?thesis using ok' s b by blast
    qed
  next
    case (Delete ident)
    with Cons.prems have rest: "list_all carries_no_id ops" by simp
    from deletePatient_state [OF Cons.prems(1), of ident] obtain st1 where
      d: "snd (deletePatient ident (Ready st)) = Ready st1" and ok1: "store_ok st1"
      and c1: "current_number st1 = current_number st" by blast
    from Cons.IH [OF ok1 rest] obtain ns st' where
      r: "run_ops ops (Ready st1) = (map JNum ns, Ready st')" and ok': "store_ok st'"
      and s: "sorted_wrt (<) ns" and b: "\<forall>n\<in>set ns. current_number st1 \<le> n \<and> n \<le> 2 ^ 53"
      and l: "current_number st1 + int (length (filter is_insert ops)) \<le> 2 ^ 53 + 1 \<longrightarrow>
                length ns = length (filter is_insert ops)"
      by blast
    have "run_ops (op # ops) (Ready st) = (map JNum ns, Ready st')"
      using Delete d r by simp
    with ok' s b l c1 Delete show ?thesis by auto
  qed
qed

text \<open>
  C5, as the code has it. For every sequence of inserts whose candidates carry no
  \<^verbatim>\<open>id\<close>, with deletes anywhere between them, the assigned ids are numbers that
  strictly increase in insertion order, so they are pairwise distinct, and none of
  them is a key the store held before; an id is not handed out again after its
  record is deleted. While the generator is not exhausted every such insert is
  assigned an id.
\<close>

theorem generated_ids_increase:
  assumes "store_ok st" and "list_all carries_no_id ops"
  shows "\<exists>ns. fst (run_ops ops (Ready st)) = map JNum ns \<and>
           sorted_wrt (<) ns \<and> distinct (fst (run_ops ops (Ready st))) \<and>
           (\<forall>n\<in>set ns. JNum n \<notin> key_of ` set (records st)) \<and>
           (current_number st + int (length (filter is_insert ops)) \<le> 2 ^ 53 + 1 \<longrightarrow>
              length ns = length (filter is_insert ops))"
proof -
  from run_ops_generated [OF assms] obtain ns st' where
    r: "run_ops ops (Ready st) = (map JNum ns, Ready st')"
    and s: "sorted_wrt (<) ns" and b: "\<forall>n\<in>set ns. current_number st \<le> n \<and> n \<le> 2 ^ 53"
    and l: "current_number st + int (length (filter is_insert ops)) \<le> 2 ^ 53 + 1 \<longrightarrow>
              length ns = length (filter is_insert ops)"
    by blast
  from s have "distinct ns" by (simp add: strict_sorted_iff)
  then have d: "distinct (map JNum ns)" by (simp add: distinct_map inj_on_def)
  have f: "\<forall>n\<in>set ns. JNum n \<notin> key_of ` set (records st)"
  proof
    fix n assume n: "n \<in> set ns"
    show "JNum n \<notin> key_of ` set (records st)"
    proof
      assume "JNum n \<in> key_of ` set (records st)"
      then obtain rec where "rec \<in> set (records st)" "key_of rec = JNum n" by auto
      with assms(1) have "n < current_number st \<or> current_number st > 2 ^ 53"
        using generator_aheadD [of st rec n] by (simp add: store_ok_def)
      with b n show False by fastforce
    qed
  qed
  from r s d f l show ?thesis by auto
qed

theorem generated_ids_increase_witness:
  "store_ok fresh_store \<and>
   list_all carries_no_id [Insert ''t1'' bob, Insert ''t2'' bob, Delete (JNum 2), Insert ''t3'' bob] \<and>
   fst (run_ops [Insert ''t1'' bob, Insert ''t2'' bob, Delete (JNum 2), Insert ''t3'' bob]
          (Ready fresh_store)) = [JNum 1, JNum 2, JNum 3]"
  using generated_ids_increase
    [of fresh_store "[Insert ''t1'' bob, Insert ''t2'' bob, Delete (JNum 2), Insert ''t3'' bob]"]
  by (simp add: store_ok_fresh bob_no_id)
     (simp add: addPatient_def deletePatient_def idb_store_def key_of_createdAt bob_no_id
        generate_key_def fresh_store_def store_get_def store_record_def store_delete_def
        key_of_upd_id)

text \<open>
  C5 as stated fails on candidates that carry an \<^verbatim>\<open>id\<close>: inserting ids 5 and
  then 3 assigns them in that order, and id 5 is assigned again after its record was
  deleted.
\<close>

theorem caller_ids_counterexample:
  "fst (run_ops [Insert ''t1'' five, Insert ''t2'' three] (Ready fresh_store))
     = [JNum 5, JNum 3] \<and>
   fst (run_ops [Insert ''t1'' five, Delete (JNum 5), Insert ''t2'' five] (Ready fresh_store))
     = [JNum 5, JNum 5]"
  by (simp add: addPatient_def deletePatient_def idb_store_def key_of_createdAt five_id three_id
        possibly_update_generator_def fresh_store_def store_get_def store_record_def
        store_delete_def)

section \<open>Update\<close>

lemma updatePatient_put:
  assumes "valid_key ident" and "store_get (records st) ident = Some R"
  shows "updatePatient ident U (Ready st) =
           (case idb_store False st (R ++ U) of
              Success k st' \<Rightarrow> (Resolved (R ++ U), Ready st')
            | Failure e \<Rightarrow> (Rejected e, Ready st)
            | Throws e \<Rightarrow> (Pending, Ready st))"
  using assms by (simp add: updatePatient_def Let_def)

lemma key_of_merge:
  "key_of (R ++ U) = (if ''id'' \<in> dom U then get_prop U ''id'' else key_of R)"
  by (simp add: key_of_def get_prop_add)

text \<open>
  C1, as the code has it. For a stored record \<open>R\<close> and an update object \<open>U\<close>,
  \<^verbatim>\<open>updatePatient\<close> works on the shallow merge \<open>R ++ U\<close>, in which every key of
  \<open>U\<close> overwrites, \<^verbatim>\<open>id\<close> and \<^verbatim>\<open>createdAt\<close> included, and every other field is
  that of \<open>R\<close>. When \<open>U\<close> has no \<^verbatim>\<open>id\<close> key, or has the id of \<open>R\<close>, the merge
  is returned and stored in the place of \<open>R\<close>, every other record staying as it
  was. When \<open>U\<close> has another \<^verbatim>\<open>id\<close> that is a valid key, the merge is returned and
  stored under that id, and every record under another id, \<open>R\<close> among them, stays
  as it was. When the \<^verbatim>\<open>id\<close> of \<open>U\<close> is neither a key nor \<^verbatim>\<open>undefined\<close>, the
  promise never settles and nothing is stored. When it is \<^verbatim>\<open>undefined\<close>, the merge is
  returned and stored under the key generator's next number, or, the generator being
  exhausted, the update is rejected and nothing is stored.
\<close>

theorem update_merges:
  assumes "valid_key ident" and "store_get (records st) ident = Some R"
  shows "(\<forall>f. get_prop (R ++ U) f = (if f \<in> dom U then get_prop U f else get_prop R f)) \<and>
         (''id'' \<notin> dom U \<or> get_prop U ''id'' = ident \<longrightarrow>
            get_prop (R ++ U) ''id'' = get_prop R ''id'' \<and>
            (\<exists>st'. updatePatient ident U (Ready st) = (Resolved (R ++ U), Ready st') \<and>
                   store_get (records st') ident = Some (R ++ U) \<and>
                   (\<forall>k. k \<noteq> ident \<longrightarrow> store_get (records st') k = store_get (records st) k))) \<and>
         (''id'' \<in> dom U \<and> valid_key (get_prop U ''id'') \<and> get_prop U ''id'' \<noteq> ident \<longrightarrow>
            (\<exists>st'. updatePatient ident U (Ready st) = (Resolved (R ++ U), Ready st') \<and>
                   store_get (records st') (get_prop U ''id'') = Some (R ++ U) \<and>
                   store_get (records st') ident = Some R \<and>
                   (\<forall>k. k \<noteq> get_prop U ''id'' \<longrightarrow>
                        store_get (records st') k = store_get (records st) k))) \<and>
         (''id'' \<in> dom U \<and> \<not> valid_key (get_prop U ''id'') \<and> get_prop U ''id'' \<noteq> JUndefined \<longrightarrow>
            updatePatient ident U (Ready st) = (Pending, Ready st)) \<and>
         (''id'' \<in> dom U \<and> get_prop U ''id'' = JUndefined \<and> current_number st \<le> 2 ^ 53 \<longrightarrow>
            (\<exists>st'. updatePatient ident U (Ready st) = (Resolved (R ++ U), Ready st') \<and>
                   store_get (records st') (JNum (current_number st))
                     = Some ((R ++ U)(''id'' \<mapsto> JNum (current_number st))) \<and>
                   (\<forall>k. k \<noteq> JNum (current_number st) \<longrightarrow>
                        store_get (records st') k = store_get (records st) k))) \<and>
         (''id'' \<in> dom U \<and> get_prop U ''id'' = JUndefined \<and> \<not> current_number st \<le> 2 ^ 53 \<longrightarrow>
            updatePatient ident U (Ready st) = (Rejected ConstraintError, Ready st))"
proof (intro conjI impI)
  let ?M = "R ++ U"
  note put = updatePatient_put [OF assms, of U]
  from assms(2) have kR: "key_of R = ident" by (simp add: store_get_key)
  show "\<forall>f. get_prop ?M f = (if f \<in> dom U then get_prop U f else get_prop R f)"
    by (simp add: get_prop_add)
  {
    assume a: "''id'' \<notin> dom U \<or> get_prop U ''id'' = ident"
    then have kM: "key_of ?M = ident" using kR by (auto simp: key_of_merge)
    then show "get_prop ?M ''id'' = get_prop R ''id''" using kR by (simp add: key_of_def)
    let ?st' = "(possibly_update_generator st ident)\<lparr>records := store_record ?M (records st)\<rparr>"
    from kM assms(1) have "idb_store False st ?M = Success ident ?st'"
      using idb_store_explicit [of ?M False st] by simp
    with put have "updatePatient ident U (Ready st) = (Resolved ?M, Ready ?st')" by simp
    moreover have "store_get (records ?st') ident = Some ?M"
      using store_get_store_record_same [of ?M "records st"] kM by simp
    moreover have "\<forall>k. k \<noteq> ident \<longrightarrow> store_get (records ?st') k = store_get (records st) k"
      using kM by (simp add: store_get_store_record_other)
    ultimately show "\<exists>st'. updatePatient ident U (Ready st) = (Resolved ?M, Ready st') \<and>
                   store_get (records st') ident = Some ?M \<and>
                   (\<forall>k. k \<noteq> ident \<longrightarrow> store_get (records st') k = store_get (records st) k)"
      by blast
  }
  {
    assume a: "''id'' \<in> dom U \<and> valid_key (get_prop U ''id'') \<and> get_prop U ''id'' \<noteq> ident"
    let ?k = "get_prop U ''id''"
    from a have kM: "key_of ?M = ?k" by (simp add: key_of_merge)
    let ?st' = "(possibly_update_generator st ?k)\<lparr>records := store_record ?M (records st)\<rparr>"
    from kM a have "idb_store False st ?M = Success ?k ?st'"
      using idb_store_explicit [of ?M False st] by simp
    with put have "updatePatient ident U (Ready st) = (Resolved ?M, Ready ?st')" by simp
    moreover have "store_get (records ?st') ?k = Some ?M"
      using store_get_store_record_same [of ?M "records st"] kM by simp
    moreover have o: "\<forall>k. k \<noteq> ?k \<longrightarrow> store_get (records ?st') k = store_get (records st) k"
      using kM by (simp add: store_get_store_record_other)
    moreover have "store_get (records ?st') ident = Some R"
    proof -
      from a have "ident \<noteq> ?k" by auto
      with o have "store_get (records ?st') ident = store_get (records st) ident" by blast
      with assms(2) show ?thesis by simp
    qed
    ultimately show "\<exists>st'. updatePatient ident U (Ready st) = (Resolved ?M, Ready st') \<and>
                   store_get (records st') ?k = Some ?M \<and>
                   store_get (records st') ident = Some R \<and>
                   (\<forall>k. k \<noteq> ?k \<longrightarrow> store_get (records st') k = store_get (records st) k)"
      by blast
  }
  {
    assume a: "''id'' \<in> dom U \<and> \<not> valid_key (get_prop U ''id'') \<and> get_prop U ''id'' \<noteq> JUndefined"
    then have "key_of ?M = get_prop U ''id''" by (simp add: key_of_merge)
    with a have "idb_store False st ?M = Throws DataError" by (simp add: idb_store_def)
    with put show "updatePatient ident U (Ready st) = (Pending, Ready st)" by simp
  }
  {
    assume a: "''id'' \<in> dom U \<and> get_prop U ''id'' = JUndefined \<and> current_number st \<le> 2 ^ 53"
    let ?n = "current_number st"
    let ?r = "?M(''id'' \<mapsto> JNum ?n)"
    let ?st' = "\<lparr>records = store_record ?r (records st), current_number = ?n + 1\<rparr>"
    from a have "key_of ?M = JUndefined" by (simp add: key_of_merge)
    with a have "idb_store False st ?M = Success (JNum ?n) ?st'"
      by (simp add: idb_store_def generate_key_def)
    with put have "updatePatient ident U (Ready st) = (Resolved ?M, Ready ?st')" by simp
    moreover have "store_get (records ?st') (JNum ?n) = Some ?r"
      using store_get_store_record_same [of ?r "records st"] by (simp add: key_of_upd_id)
    moreover have "\<forall>k. k \<noteq> JNum ?n \<longrightarrow> store_get (records ?st') k = store_get (records st) k"
      by (simp add: store_get_store_record_other key_of_upd_id)
    ultimately show "\<exists>st'. updatePatient ident U (Ready st) = (Resolved ?M, Ready st') \<and>
                   store_get (records st') (JNum ?n) = Some ?r \<and>
                   (\<forall>k. k \<noteq> JNum ?n \<longrightarrow> store_get (records st') k = store_get (records st) k)"
      by blast
  }
  {
    assume a: "''id'' \<in> dom U \<and> get_prop U ''id'' = JUndefined \<and> \<not> current_number st \<le> 2 ^ 53"
    then have "key_of ?M = JUndefined" by (simp add: key_of_merge)
    with a have "idb_store False st ?M = Failure ConstraintError"
      by (simp add: idb_store_exhausted)
    with put show "updatePatient ident U (Ready st) = (Rejected ConstraintError, Ready st)"
      by simp
  }
qed


theorem update_merges_witness:
  "valid_key (JNum 7) \<and> store_get (records clinic) (JNum 7) = Some jon \<and>
   fst (updatePatient (JNum 7) [''notes'' \<mapsto> JStr ''x''] (Ready clinic))
     = Resolved (jon ++ [''notes'' \<mapsto> JStr ''x'']) \<and>
   getPatientById (JNum 7)
       (snd (updatePatient (JNum 7) [''notes'' \<mapsto> JStr ''x''] (Ready clinic)))
     = Resolved (Some (jon ++ [''notes'' \<mapsto> JStr ''x''])) \<and>
   get_prop (jon ++ [''notes'' \<mapsto> JStr ''x'']) ''notes'' = JStr ''x'' \<and>
   get_prop (jon ++ [''notes'' \<mapsto> JStr ''x'']) ''id'' = JNum 7 \<and>
   get_prop (jon ++ [''notes'' \<mapsto> JStr ''x'']) ''name'' = JStr ''Jon'' \<and>
   fst (updatePatient (JNum 7) [''id'' \<mapsto> JNum 7, ''age'' \<mapsto> JNum 53] (Ready clinic))
     = Resolved (jon ++ [''id'' \<mapsto> JNum 7, ''age'' \<mapsto> JNum 53]) \<and>
   getPatientById (JNum 7)
       (snd (updatePatient (JNum 7) [''id'' \<mapsto> JNum 7, ''age'' \<mapsto> JNum 53] (Ready clinic)))
     = Resolved (Some (jon ++ [''id'' \<mapsto> JNum 7, ''age'' \<mapsto> JNum 53]))"
proof -
  let ?U = "[''notes'' \<mapsto> JStr ''x'']"
  let ?V = "[''id'' \<mapsto> JNum 7, ''age'' \<mapsto> JNum 53]"
  have v: "valid_key (JNum 7)" by simp
  have dU: "''id'' \<notin> dom ?U \<or> get_prop ?U ''id'' = JNum 7" by simp
  have dV: "''id'' \<notin> dom ?V \<or> get_prop ?V ''id'' = JNum 7" by (simp add: get_prop_def)
  from update_merges [OF v clinic_get_jon, of ?U] dU obtain s1 where
    a1: "updatePatient (JNum 7) ?U (Ready clinic) = (Resolved (jon ++ ?U), Ready s1)"
    and b1: "store_get (records s1) (JNum 7) = Some (jon ++ ?U)"
    by blast
  from update_merges [OF v clinic_get_jon, of ?V] dV obtain s2 where
    a2: "updatePatient (JNum 7) ?V (Ready clinic) = (Resolved (jon ++ ?V), Ready s2)"
    and b2: "store_get (records s2) (JNum 7) = Some (jon ++ ?V)"
    by blast
  show ?thesis
    unfolding a1 a2
    by (simp add: getPatientById_def b1 b2 clinic_get_jon get_prop_upd jon_props)
qed

text \<open>
  C1 as stated fails: an update that carries \<^verbatim>\<open>id: 999\<close> and
  \<^verbatim>\<open>createdAt: "bogus"\<close> returns a record with exactly these values, stored under 999,
  and the record under 7 stays as it was.
\<close>

theorem update_overwrites_id_counterexample:
  "fst (updatePatient (JNum 7) sneaky (Ready clinic)) = Resolved (jon ++ sneaky) \<and>
   get_prop jon ''id'' = JNum 7 \<and>
   get_prop (jon ++ sneaky) ''id'' = JNum 999 \<and>
   get_prop (jon ++ sneaky) ''createdAt'' = JStr ''bogus'' \<and>
   get_prop jon ''createdAt'' \<noteq> JStr ''bogus'' \<and>
   getPatientById (JNum 7) (snd (updatePatient (JNum 7) sneaky (Ready clinic)))
     = Resolved (Some jon) \<and>
   getPatientById (JNum 999) (snd (updatePatient (JNum 7) sneaky (Ready clinic)))
     = Resolved (Some (jon ++ sneaky))"
proof -
  have k: "key_of (jon ++ sneaky) = JNum 999"
    by (simp add: key_of_def get_prop_add sneaky_def get_prop_def)
  have u: "updatePatient (JNum 7) sneaky (Ready clinic) =
             (Resolved (jon ++ sneaky),
              Ready ((possibly_update_generator clinic (JNum 999))
                       \<lparr>records := store_record (jon ++ sneaky) (records clinic)\<rparr>))"
    using idb_store_explicit [of "jon ++ sneaky" False clinic]
    by (simp add: updatePatient_def Let_def clinic_get_jon k)
  have g7: "store_get (store_record (jon ++ sneaky) (records clinic)) (JNum 7) = Some jon"
    using store_get_store_record_other [of "JNum 7" "jon ++ sneaky" "records clinic"]
    by (simp add: k clinic_get_jon)
  have g999: "store_get (store_record (jon ++ sneaky) (records clinic)) (JNum 999)
                = Some (jon ++ sneaky)"
    using store_get_store_record_same [of "jon ++ sneaky" "records clinic"] by (simp add: k)
  show ?thesis
    by (simp add: u g7 g999 getPatientById_def jon_props get_prop_add)
       (simp add: sneaky_def get_prop_def jon_def)
qed

section \<open>Lookups and updates of an absent id\<close>

text \<open>
  C7, as the code has it. For every id that no stored record has: when the id is a
  valid key (a number or a string), \<^verbatim>\<open>updatePatient\<close> rejects with the
  "Patient not found" error; when it is no valid key (\<^verbatim>\<open>null\<close>, \<^verbatim>\<open>undefined\<close>, a
  blob), the engine's \<^verbatim>\<open>get\<close> throws and \<^verbatim>\<open>updatePatient\<close> rejects with that
  DataError. Either way the stored state is what it was.
\<close>

theorem update_absent_NotFound:
  assumes "ident \<notin> key_of ` set (records st)"
  shows "(valid_key ident \<longrightarrow>
            updatePatient ident updates (Ready st) = (Rejected PatientNotFound, Ready st)) \<and>
         (\<not> valid_key ident \<longrightarrow>
            updatePatient ident updates (Ready st) = (Rejected DataError, Ready st))"
proof -
  from assms have "store_get (records st) ident = None"
    by (simp add: store_get_None_iff)
  then show ?thesis by (simp add: updatePatient_def)
qed

theorem update_absent_NotFound_witness:
  "JNum 999 \<notin> key_of ` set (records clinic) \<and> valid_key (JNum 999) \<and>
   updatePatient (JNum 999) [''age'' \<mapsto> JNum 46] (Ready clinic)
     = (Rejected PatientNotFound, Ready clinic) \<and>
   JNull \<notin> key_of ` set (records clinic) \<and> \<not> valid_key JNull \<and>
   updatePatient JNull [''age'' \<mapsto> JNum 46] (Ready clinic)
     = (Rejected DataError, Ready clinic)"
  using update_absent_NotFound [of "JNum 999" clinic "[''age'' \<mapsto> JNum 46]"]
    update_absent_NotFound [of JNull clinic "[''age'' \<mapsto> JNum 46]"]
  by (simp add: clinic_keys)

text \<open>
  C7 as stated fails: \<^verbatim>\<open>null\<close> is an id that no stored record has, and updating it
  rejects with the DataError, not with the "Patient not found" error.
\<close>

theorem update_absent_invalid_key_counterexample:
  "JNull \<notin> key_of ` set (records clinic) \<and>
   fst (updatePatient JNull [''age'' \<mapsto> JNum 46] (Ready clinic)) = Rejected DataError \<and>
   fst (updatePatient JNull [''age'' \<mapsto> JNum 46] (Ready clinic)) \<noteq> Rejected PatientNotFound"
  by (simp add: clinic_keys updatePatient_def)

text \<open>
  C8, as the code has it. For every id that no stored record has, and so for every id
  on an empty store: when the id is a valid key (a number or a string),
  \<^verbatim>\<open>getPatientById\<close> resolves with the empty result (\<^verbatim>\<open>undefined\<close>) and does not
  reject; when it is no valid key (\<^verbatim>\<open>null\<close>, \<^verbatim>\<open>undefined\<close>, a blob), the engine's
  \<^verbatim>\<open>get\<close> throws and \<^verbatim>\<open>getPatientById\<close> rejects with that DataError.
\<close>

theorem getById_absent_empty:
  assumes "ident \<notin> key_of ` set (records st)"
  shows "(valid_key ident \<longrightarrow> getPatientById ident (Ready st) = Resolved None) \<and>
         (\<not> valid_key ident \<longrightarrow> getPatientById ident (Ready st) = Rejected DataError)"
proof -
  from assms have "store_get (records st) ident = None"
    by (simp add: store_get_None_iff)
  then show ?thesis by (simp add: getPatientById_def)
qed

theorem getById_absent_empty_witness:
  "JNum 999 \<notin> key_of ` set (records fresh_store) \<and> valid_key (JNum 999) \<and>
   snd (init (Unopened None)) = Ready fresh_store \<and>
   getPatientById (JNum 999) (snd (init (Unopened None))) = Resolved None \<and>
   JUndefined \<notin> key_of ` set (records fresh_store) \<and> \<not> valid_key JUndefined \<and>
   getPatientById JUndefined (snd (init (Unopened None))) = Rejected DataError"
  using getById_absent_empty [of "JNum 999" fresh_store]
    getById_absent_empty [of JUndefined fresh_store]
  by (simp add: fresh_store_def init_def)

text \<open>
  C8 as stated fails: on the empty store \<^verbatim>\<open>getPatientById(null)\<close> rejects with the
  DataError; it does not resolve with the empty result.
\<close>

theorem getById_invalid_key_counterexample:
  "JNull \<notin> key_of ` set (records fresh_store) \<and>
   getPatientById JNull (snd (init (Unopened None))) = Rejected DataError \<and>
   getPatientById JNull (snd (init (Unopened None))) \<noteq> Resolved None"
  by (simp add: fresh_store_def init_def getPatientById_def)

section \<open>Search\<close>

text \<open>
  When every name is a string the callback never throws, and the search resolves with
  the records that pass one of its two tests, in store order.
\<close>

lemma search_resolves:
  assumes "names_are_text st"
  shows "searchPatients searchTerm (Ready st) =
           Resolved (filter (\<lambda>p. id_hit (parseInt searchTerm) p \<or>
                                  name_hit (trim (toLowerCase searchTerm)) p) (records st))"
proof -
  let ?sid = "parseInt searchTerm" and ?low = "trim (toLowerCase searchTerm)"
  have "\<forall>p\<in>set (records st).
          patient_matches ?sid ?low p = Some ((\<lambda>p. id_hit ?sid p \<or> name_hit ?low p) p)"
  proof
    fix p assume "p \<in> set (records st)"
    with assms have "name_is_text p" by (simp add: names_are_text_def list_all_iff)
    then obtain s where "get_prop p ''name'' = JStr s" using name_is_textE by blast
    then show "patient_matches ?sid ?low p = Some ((\<lambda>p. id_hit ?sid p \<or> name_hit ?low p) p)"
      by (simp add: patient_matches_def id_hit_def name_hit_def)
  qed
  then have "filter_throwing (patient_matches ?sid ?low) (records st)
               = Some (filter (\<lambda>p. id_hit ?sid p \<or> name_hit ?low p) (records st))"
    by (rule filter_throwing_total)
  then show ?thesis by (simp add: searchPatients_def)
qed

lemma search_includes_name_match:
  assumes "names_are_text st" and "p \<in> set (records st)"
    and "get_prop p ''name'' = JStr nm"
    and "includes_str (toLowerCase nm) (trim (toLowerCase searchTerm))"
  shows "\<exists>res. searchPatients searchTerm (Ready st) = Resolved res \<and> p \<in> set res"
  using assms by (simp add: search_resolves name_hit_def)

lemma search_includes_id_match:
  assumes "names_are_text st" and "p \<in> set (records st)"
    and "parseInt searchTerm = Num n" and "get_prop p ''id'' = JNum n"
  shows "\<exists>res. searchPatients searchTerm (Ready st) = Resolved res \<and> p \<in> set res"
  using assms by (simp add: search_resolves id_hit_def)

lemma search_distinct:
  assumes "names_are_text st" and "keys_distinct st"
    and "searchPatients searchTerm (Ready st) = Resolved res"
  shows "distinct res"
proof -
  from assms(2) have "distinct (records st)"
    by (simp add: keys_distinct_def distinct_map)
  with assms(1,3) show ?thesis by (auto simp: search_resolves)
qed

lemma count_list_distinct: "distinct xs \<Longrightarrow> x \<in> set xs \<Longrightarrow> count_list xs x = 1"
  by (induction xs) auto

subsection \<open>Searches on concrete stores\<close>

lemma anonymous_no_id: "get_prop anonymous ''id'' = JUndefined"
  by (simp add: anonymous_def get_prop_def)

lemma anonymous_no_name: "get_prop anonymous ''name'' = JUndefined"
  by (simp add: anonymous_def get_prop_def)

lemma key_of_jon: "key_of jon = JNum 7" and key_of_eleven: "key_of eleven = JNum 8"
  and key_of_alice: "key_of alice = JNum 1"
  by (simp_all add: key_of_def jon_props eleven_props alice_props)

lemma add_anonymous_clinic:
  "addPatient now anonymous (Ready clinic) =
     (Resolved (JNum 9),
      Ready \<lparr>records = [jon, eleven, anonymous(''createdAt'' \<mapsto> JStr now, ''id'' \<mapsto> JNum 9)],
             current_number = 10\<rparr>)"
  by (simp add: addPatient_def idb_store_def key_of_createdAt anonymous_no_id generate_key_def
      clinic_def store_get_def store_record_def key_of_jon key_of_eleven key_of_upd_id)

lemma add_anonymous_ward:
  "addPatient now anonymous (Ready ward) =
     (Resolved (JNum 8),
      Ready \<lparr>records = [alice, jon, anonymous(''createdAt'' \<mapsto> JStr now, ''id'' \<mapsto> JNum 8)],
             current_number = 9\<rparr>)"
  by (simp add: addPatient_def idb_store_def key_of_createdAt anonymous_no_id generate_key_def
      ward_def store_get_def store_record_def key_of_jon key_of_alice key_of_upd_id)

lemma search_clinic_7: "searchPatients ''7'' (Ready clinic) = Resolved [jon, eleven]"
  by (simp add: searchPatients_def p7 term_7 patient_matches_def jon_props eleven_props
      clinic_def lower_7eleven starts_with_def)

lemma search_clinic_JON: "searchPatients '' JON  '' (Ready clinic) = Resolved [jon]"
  by (simp add: searchPatients_def p_JON term_JON patient_matches_def jon_props eleven_props
      clinic_def lower_Jon lower_7eleven starts_with_def)

text \<open>
  C4, as the code has it. On every store whose records all have a string name,
  \<^verbatim>\<open>searchPatients\<close> resolves with the union of the records whose \<^verbatim>\<open>id\<close> is the
  number the term parses to (when \<^verbatim>\<open>parseInt\<close> gives one) and the records whose
  lower-cased name contains the lower-cased trimmed term, and no record occurs twice in
  the result. In particular, when such a store holds a record with id 7 named Jon and a
  record named 7-Eleven, the term 7 finds both, each exactly once; and a record named
  Jon is found by the term JON written in capitals between blanks.
\<close>

theorem search_union:
  assumes "names_are_text st" and "keys_distinct st"
  shows "(\<exists>res. searchPatients searchTerm (Ready st) = Resolved res \<and>
            set res =
              {p \<in> set (records st). \<exists>n. parseInt searchTerm = Num n \<and> get_prop p ''id'' = JNum n} \<union>
              {p \<in> set (records st). \<exists>nm pre post. get_prop p ''name'' = JStr nm \<and>
                 toLowerCase nm = pre @ toLowerCase (trim searchTerm) @ post} \<and>
            distinct res) \<and>
         (\<forall>p q. p \<in> set (records st) \<and> q \<in> set (records st) \<and>
                get_prop p ''id'' = JNum 7 \<and> get_prop p ''name'' = JStr ''Jon'' \<and>
                get_prop q ''name'' = JStr ''7-Eleven'' \<longrightarrow>
            (\<exists>res. searchPatients ''7'' (Ready st) = Resolved res \<and>
                   count_list res p = 1 \<and> count_list res q = 1)) \<and>
         (\<forall>p. p \<in> set (records st) \<and> get_prop p ''name'' = JStr ''Jon'' \<longrightarrow>
            (\<exists>res. searchPatients '' JON  '' (Ready st) = Resolved res \<and> p \<in> set res))"
proof (intro conjI allI impI)
  let ?sid = "parseInt searchTerm" and ?low = "trim (toLowerCase searchTerm)"
  let ?res = "filter (\<lambda>p. id_hit ?sid p \<or> name_hit ?low p) (records st)"
  have r: "searchPatients searchTerm (Ready st) = Resolved ?res"
    using assms(1) by (rule search_resolves)
  have a: "\<And>p. id_hit ?sid p \<longleftrightarrow> (\<exists>n. parseInt searchTerm = Num n \<and> get_prop p ''id'' = JNum n)"
    by (simp add: id_hit_def split: parsed.splits)
  have b: "\<And>p. name_hit ?low p \<longleftrightarrow> (\<exists>nm pre post. get_prop p ''name'' = JStr nm \<and>
                toLowerCase nm = pre @ toLowerCase (trim searchTerm) @ post)"
    by (auto simp: name_hit_def includes_str_iff trim_toLowerCase split: jsval.splits)
  have s: "set ?res =
             {p \<in> set (records st). \<exists>n. parseInt searchTerm = Num n \<and> get_prop p ''id'' = JNum n} \<union>
             {p \<in> set (records st). \<exists>nm pre post. get_prop p ''name'' = JStr nm \<and>
                toLowerCase nm = pre @ toLowerCase (trim searchTerm) @ post}"
    unfolding set_filter a b by blast
  have d: "distinct ?res" using assms r by (rule search_distinct)
  from r s d show "\<exists>res. searchPatients searchTerm (Ready st) = Resolved res \<and>
            set res =
              {p \<in> set (records st). \<exists>n. parseInt searchTerm = Num n \<and> get_prop p ''id'' = JNum n} \<union>
              {p \<in> set (records st). \<exists>nm pre post. get_prop p ''name'' = JStr nm \<and>
                 toLowerCase nm = pre @ toLowerCase (trim searchTerm) @ post} \<and>
            distinct res"
    by blast
next
  fix p q
  assume h: "p \<in> set (records st) \<and> q \<in> set (records st) \<and>
             get_prop p ''id'' = JNum 7 \<and> get_prop p ''name'' = JStr ''Jon'' \<and>
             get_prop q ''name'' = JStr ''7-Eleven''"
  let ?res = "filter (\<lambda>p. id_hit (parseInt ''7'') p \<or> name_hit (trim (toLowerCase ''7'')) p)
                (records st)"
  have r: "searchPatients ''7'' (Ready st) = Resolved ?res"
    using assms(1) by (rule search_resolves)
  have d: "distinct ?res" using assms r by (rule search_distinct)
  have "p \<in> set ?res" using h by (simp add: id_hit_def p7)
  moreover have "q \<in> set ?res"
    using h by (simp add: name_hit_def term_7 lower_7eleven starts_with_def)
  ultimately have "count_list ?res p = 1 \<and> count_list ?res q = 1"
    using d by (simp add: count_list_distinct)
  with r show "\<exists>res. searchPatients ''7'' (Ready st) = Resolved res \<and>
                 count_list res p = 1 \<and> count_list res q = 1"
    by blast
next
  fix p
  assume h: "p \<in> set (records st) \<and> get_prop p ''name'' = JStr ''Jon''"
  have "includes_str (toLowerCase ''Jon'') (trim (toLowerCase '' JON  ''))"
    by (simp add: lower_Jon term_JON starts_with_def)
  with assms(1) h show "\<exists>res. searchPatients '' JON  '' (Ready st) = Resolved res \<and> p \<in> set res"
    using search_includes_name_match [of st p "''Jon''" "'' JON  ''"] by blast
qed

theorem search_union_witness:
  "names_are_text clinic \<and> keys_distinct clinic \<and>
   jon \<in> set (records clinic) \<and> eleven \<in> set (records clinic) \<and>
   get_prop jon ''id'' = JNum 7 \<and> get_prop jon ''name'' = JStr ''Jon'' \<and>
   get_prop eleven ''name'' = JStr ''7-Eleven'' \<and>
   searchPatients ''7'' (Ready clinic) = Resolved [jon, eleven] \<and>
   count_list [jon, eleven] jon = 1 \<and> count_list [jon, eleven] eleven = 1 \<and>
   searchPatients '' JON  '' (Ready clinic) = Resolved [jon]"
proof -
  have m: "jon \<in> set (records clinic)" "eleven \<in> set (records clinic)"
    by (simp_all add: clinic_def)
  have "\<forall>p q. p \<in> set (records clinic) \<and> q \<in> set (records clinic) \<and>
                get_prop p ''id'' = JNum 7 \<and> get_prop p ''name'' = JStr ''Jon'' \<and>
                get_prop q ''name'' = JStr ''7-Eleven'' \<longrightarrow>
            (\<exists>res. searchPatients ''7'' (Ready clinic) = Resolved res \<and>
                   count_list res p = 1 \<and> count_list res q = 1)"
    using search_union [OF clinic_names clinic_distinct, of "''7''"] by blast
  with m jon_props eleven_props(2) obtain res where
    r: "searchPatients ''7'' (Ready clinic) = Resolved res"
    and c: "count_list res jon = 1" "count_list res eleven = 1"
    by blast
  from r have "res = [jon, eleven]" by (simp add: search_clinic_7)
  with c have c': "count_list [jon, eleven] jon = 1" "count_list [jon, eleven] eleven = 1"
    by blast+
  from clinic_names clinic_distinct m jon_props eleven_props(2) search_clinic_7 c'
    search_clinic_JON
  show ?thesis by blast
qed

text \<open>
  C4 as stated fails on a stored state with a record that has no string name: after
  the insert of a candidate without a name into the store that holds Jon under id 7
  and 7-Eleven, the search for 7 never settles, so it returns neither record.
\<close>

theorem search_union_counterexample:
  "fst (addPatient ''2024-04-01T10:00:00.000Z'' anonymous (Ready clinic)) = Resolved (JNum 9) \<and>
   getPatientById (JNum 7) (snd (addPatient ''2024-04-01T10:00:00.000Z'' anonymous (Ready clinic)))
     = Resolved (Some jon) \<and>
   getPatientById (JNum 8) (snd (addPatient ''2024-04-01T10:00:00.000Z'' anonymous (Ready clinic)))
     = Resolved (Some eleven) \<and>
   searchPatients ''7'' (snd (addPatient ''2024-04-01T10:00:00.000Z'' anonymous (Ready clinic)))
     = Pending"
  by (simp add: add_anonymous_clinic getPatientById_def store_get_def key_of_jon key_of_eleven
      searchPatients_def p7 term_7 patient_matches_def jon_props eleven_props
      lower_7eleven starts_with_def get_prop_upd anonymous_no_name)

lemma search_ward_ALICE: "searchPatients ''ALICE'' (Ready ward) = Resolved [alice]"
  by (simp add: searchPatients_def p_ALICE term_ALICE patient_matches_def jon_props alice_props
      ward_def lower_alice lower_Jon starts_with_def)

lemma search_ward_lice_sm: "searchPatients ''lice sm'' (Ready ward) = Resolved [alice]"
  by (simp add: searchPatients_def p_lice_sm term_lice_sm patient_matches_def jon_props
      alice_props ward_def lower_alice lower_Jon starts_with_def)

text \<open>
  C6, as the code has it. On every store whose records all have a string name, name
  matching is case-insensitive substring containment: a stored record is found by
  every term whose lower-cased trimmed form occurs in its lower-cased name, and a
  record named Alice Smith is found by ALICE and by lice sm.
\<close>

theorem search_name_case_insensitive:
  assumes "names_are_text st" and "p \<in> set (records st)" and "get_prop p ''name'' = JStr nm"
  shows "(\<forall>searchTerm.
            (\<exists>pre post. toLowerCase nm = pre @ toLowerCase (trim searchTerm) @ post) \<longrightarrow>
            (\<exists>res. searchPatients searchTerm (Ready st) = Resolved res \<and> p \<in> set res)) \<and>
         (nm = ''Alice Smith'' \<longrightarrow>
            (\<exists>res. searchPatients ''ALICE'' (Ready st) = Resolved res \<and> p \<in> set res) \<and>
            (\<exists>res. searchPatients ''lice sm'' (Ready st) = Resolved res \<and> p \<in> set res))"
proof (intro conjI allI impI)
  fix searchTerm
  assume "\<exists>pre post. toLowerCase nm = pre @ toLowerCase (trim searchTerm) @ post"
  then have "includes_str (toLowerCase nm) (trim (toLowerCase searchTerm))"
    by (simp add: includes_str_iff trim_toLowerCase)
  with assms show "\<exists>res. searchPatients searchTerm (Ready st) = Resolved res \<and> p \<in> set res"
    by (rule search_includes_name_match)
next
  assume nm: "nm = ''Alice Smith''"
  have "includes_str (toLowerCase nm) (trim (toLowerCase ''ALICE''))"
    unfolding nm lower_alice term_ALICE by (simp add: starts_with_def)
  with assms show "\<exists>res. searchPatients ''ALICE'' (Ready st) = Resolved res \<and> p \<in> set res"
    by (rule search_includes_name_match)
next
  assume nm: "nm = ''Alice Smith''"
  have "includes_str (toLowerCase nm) (trim (toLowerCase ''lice sm''))"
    unfolding nm lower_alice term_lice_sm by (simp add: starts_with_def)
  with assms show "\<exists>res. searchPatients ''lice sm'' (Ready st) = Resolved res \<and> p \<in> set res"
    by (rule search_includes_name_match)
qed

theorem search_name_case_insensitive_witness:
  "names_are_text ward \<and> alice \<in> set (records ward) \<and>
   get_prop alice ''name'' = JStr ''Alice Smith'' \<and>
   searchPatients ''ALICE'' (Ready ward) = Resolved [alice] \<and>
   searchPatients ''lice sm'' (Ready ward) = Resolved [alice]"
proof -
  have m: "alice \<in> set (records ward)" by (simp add: ward_def)
  from search_name_case_insensitive [OF ward_names m alice_props(2)]
  obtain res where "searchPatients ''ALICE'' (Ready ward) = Resolved res" "alice \<in> set res"
    by blast
  then have "searchPatients ''ALICE'' (Ready ward) = Resolved [alice]"
    by (simp add: search_ward_ALICE)
  with ward_names m alice_props(2) search_ward_lice_sm show ?thesis by blast
qed

text \<open>
  C6 as stated fails on a stored state with a record that has no string name: after
  the insert of a candidate without a name into the store that holds Alice Smith, the
  searches for ALICE and for lice sm never settle, so they do not return her record.
\<close>

theorem search_name_counterexample:
  "getPatientById (JNum 1)
       (snd (addPatient ''2024-04-01T10:00:00.000Z'' anonymous (Ready ward)))
     = Resolved (Some alice) \<and>
   get_prop alice ''name'' = JStr ''Alice Smith'' \<and>
   searchPatients ''ALICE'' (snd (addPatient ''2024-04-01T10:00:00.000Z'' anonymous (Ready ward)))
     = Pending \<and>
   searchPatients ''lice sm'' (snd (addPatient ''2024-04-01T10:00:00.000Z'' anonymous (Ready ward)))
     = Pending"
  by (simp add: add_anonymous_ward getPatientById_def store_get_def key_of_alice
      searchPatients_def p_ALICE term_ALICE p_lice_sm term_lice_sm patient_matches_def
      jon_props alice_props lower_alice lower_Jon starts_with_def get_prop_upd
      anonymous_no_name)

text \<open>
  C9. When every stored record's name is a string, a search term that is empty or all
  white space returns every record of the store: the term does not parse to a number,
  and its trimmed form is the empty string, which every name contains.
\<close>

theorem search_blank_returns_all:
  assumes "names_are_text st" and "\<forall>c\<in>set searchTerm. is_ws c"
  shows "searchPatients searchTerm (Ready st) = Resolved (records st)"
proof -
  have nan: "parseInt searchTerm = NaN" using assms(2) by (rule parseInt_blank)
  have low: "trim (toLowerCase searchTerm) = []"
    using assms(2) by (simp add: toLowerCase_blank trim_blank)
  have "\<forall>p\<in>set (records st). patient_matches NaN [] p = Some ((\<lambda>p. True) p)"
  proof
    fix p assume "p \<in> set (records st)"
    with assms(1) have "name_is_text p" by (simp add: names_are_text_def list_all_iff)
    then obtain s where "get_prop p ''name'' = JStr s" using name_is_textE by blast
    then show "patient_matches NaN [] p = Some ((\<lambda>p. True) p)"
      by (simp add: patient_matches_def includes_str_empty)
  qed
  then have "filter_throwing (patient_matches NaN []) (records st)
               = Some (filter (\<lambda>p. True) (records st))"
    by (rule filter_throwing_total)
  then show ?thesis by (simp add: searchPatients_def nan low)
qed

theorem search_blank_returns_all_witness:
  "names_are_text clinic \<and> is_ws CHR '' '' \<and>
   searchPatients ''  '' (Ready clinic) = Resolved [jon, eleven] \<and>
   searchPatients [] (Ready clinic) = Resolved [jon, eleven]"
  using search_blank_returns_all [of clinic "''  ''"] search_blank_returns_all [of clinic "[]"]
  by (simp add: clinic_names is_ws_def) (simp add: clinic_def)

text \<open>
  C10, as the code has it. The numeric parse is \<^verbatim>\<open>parseInt\<close>, a prefix parse. On
  every store whose records all have a string name, and for every term whose leading
  characters form a decimal integer, whatever follows them, unless the term begins with
  \<^verbatim>\<open>0x\<close> or \<^verbatim>\<open>0X\<close>: the search includes the record whose \<^verbatim>\<open>id\<close> is the Number
  value of that integer, which is the integer itself when it is at most \<open>2 ^ 53\<close> and
  the nearest double beyond.
\<close>

theorem search_prefix_parse:
  assumes "names_are_text st" and "p \<in> set (records st)"
    and "leading_integer searchTerm = Some n" and "\<not> has_hex_prefix searchTerm"
  shows "(\<forall>m. to_double n = Some m \<and> get_prop p ''id'' = JNum (int m) \<longrightarrow>
            (\<exists>res. searchPatients searchTerm (Ready st) = Resolved res \<and> p \<in> set res)) \<and>
         (n \<le> 2 ^ 53 \<and> get_prop p ''id'' = JNum (int n) \<longrightarrow>
            (\<exists>res. searchPatients searchTerm (Ready st) = Resolved res \<and> p \<in> set res))"
proof -
  have a: "\<exists>res. searchPatients searchTerm (Ready st) = Resolved res \<and> p \<in> set res"
    if "to_double n = Some m" and "get_prop p ''id'' = JNum (int m)" for m
  proof -
    from assms(3,4) that(1) have "parseInt searchTerm = Num (int m)"
      by (simp add: parseInt_leading_integer)
    with assms(1,2) show ?thesis using that(2) by (rule search_includes_id_match)
  qed
  have "\<exists>res. searchPatients searchTerm (Ready st) = Resolved res \<and> p \<in> set res"
    if "n \<le> 2 ^ 53" and "get_prop p ''id'' = JNum (int n)"
    using a [of n] that by (simp add: to_double_exact)
  with a show ?thesis by blast
qed

lemma search_clinic_7eleven: "searchPatients ''7-Eleven'' (Ready clinic) = Resolved [jon, eleven]"
  by (simp add: searchPatients_def p_7eleven patient_matches_def jon_props
      eleven_props clinic_def lower_7eleven starts_with_def trim_def is_ws_def)

theorem search_prefix_parse_witness:
  "names_are_text clinic \<and> jon \<in> set (records clinic) \<and>
   leading_integer ''7-Eleven'' = Some 7 \<and> \<not> has_hex_prefix ''7-Eleven'' \<and>
   to_double 7 = Some 7 \<and> get_prop jon ''id'' = JNum 7 \<and>
   searchPatients ''7-Eleven'' (Ready clinic) = Resolved [jon, eleven]"
proof -
  have m: "jon \<in> set (records clinic)" by (simp add: clinic_def)
  have h: "\<not> has_hex_prefix ''7-Eleven''" by (simp add: has_hex_prefix_def)
  have d: "to_double 7 = Some 7" by (simp add: to_double_small)
  have i: "get_prop jon ''id'' = JNum (int 7)" by (simp add: jon_props)
  from search_prefix_parse [OF clinic_names m li7 h] d i
  obtain res where "searchPatients ''7-Eleven'' (Ready clinic) = Resolved res" "jon \<in> set res"
    by blast
  then have "searchPatients ''7-Eleven'' (Ready clinic) = Resolved [jon, eleven]"
    by (simp add: search_clinic_7eleven)
  with clinic_names m li7 h d jon_props(1) show ?thesis by blast
qed

text \<open>
  A term beyond \<open>2 ^ 53\<close> is matched as the double it rounds to: the term
  9007199254740993 finds the record whose id is \<open>2 ^ 53\<close>.
\<close>

lemma search_rounds_term:
  "searchPatients ''9007199254740993''
     (Ready \<lparr>records = [[''id'' \<mapsto> JNum 9007199254740992, ''name'' \<mapsto> JStr ''Max'']],
            current_number = 9007199254740993\<rparr>)
     = Resolved [[''id'' \<mapsto> JNum 9007199254740992, ''name'' \<mapsto> JStr ''Max'']]"
  by (simp add: searchPatients_def p_big patient_matches_def get_prop_def)

text \<open>
  C10 as stated fails on a term that begins with \<^verbatim>\<open>0x\<close>: the leading characters of
  \<^verbatim>\<open>0x1F\<close> form the integer 0, \<^verbatim>\<open>parseInt\<close> gives 31, and the stored record with id 0
  (whose name is a string) is not found.
\<close>

theorem search_prefix_parse_counterexample:
  "fst (addPatient ''2024-01-01T00:00:00.000Z'' zed (Ready fresh_store)) = Resolved (JNum 0) \<and>
   getPatientById (JNum 0) (snd (addPatient ''2024-01-01T00:00:00.000Z'' zed (Ready fresh_store)))
     = Resolved (Some (zed(''createdAt'' \<mapsto> JStr ''2024-01-01T00:00:00.000Z''))) \<and>
   leading_integer ''0x1F'' = Some 0 \<and> \<not> list_all is_digit ''0x1F'' \<and>
   parseInt ''0x1F'' = Num 31 \<and>
   searchPatients ''0x1F'' (snd (addPatient ''2024-01-01T00:00:00.000Z'' zed (Ready fresh_store)))
     = Resolved []"
  by (simp add: add_zed_fresh getPatientById_def store_get_def key_of_createdAt zed_id
        leading_integer_def is_digit_def decimal_value_def
        searchPatients_def p_hex term_hex patient_matches_def get_prop_upd)
     (simp add: zed_def get_prop_def toLowerCase_def lower_char_def is_upper_def starts_with_def)

end
